theory Spec2Isabelle
  imports Complex_Main "HOL-Library.AList"
begin

section \<open>The routing and admission-control engine\<close>

text \<open>
  A shallow embedding of the capacity-constrained routing engine of the repository:
  the interface cost model, the network and its bounded depth-first path search, the
  admission controller, the coordinate-descent relaxation, the history of accumulated
  cost and the floor estimator.  The engine is written several times over in the
  repository; the definitions follow \<^verbatim>\<open>utils/lambda_floor.py\<close>,
  \<^verbatim>\<open>utils/routing_engine_v1.py\<close> and \<^verbatim>\<open>utils/accumulated_cost.py\<close>, and
  the variants of \<^verbatim>\<open>core/admissibility_unified_V4.py\<close> carry the suffix \<open>_V4\<close>
  where they differ.

  In the routing, the relaxation and the history a Python \<^verbatim>\<open>float\<close> is read as
  \<^typ>\<open>real\<close>: sums, products and comparisons are exact, and \<^verbatim>\<open>float('inf')\<close>
  is the value \<^term>\<open>None\<close> of \<^typ>\<open>real option\<close>.  The result of
  \<^verbatim>\<open>Interface.max_n\<close> depends on how the division and the square root round,
  so this method is modelled in IEEE-754 binary64 arithmetic, with the exceptions that
  Python raises.
  Python's \<^verbatim>\<open>int\<close> is \<^typ>\<open>int\<close>.  A \<^verbatim>\<open>dict\<close> is an association list in
  insertion order with distinct keys: \<^const>\<open>AList.update\<close> overwrites the value of
  a key in place and appends a new key at the end, as a Python assignment
  \<^verbatim>\<open>d[k] = v\<close> does.
\<close>

subsection \<open>Constants\<close>

definition EPS_SLACK :: real where
  "EPS_SLACK = 1 / 10 ^ 6"

definition EPS_COST :: real where
  "EPS_COST = 1 / 10 ^ 9"

definition MAX_RELAX_ITERS :: int where
  "MAX_RELAX_ITERS = 10"

definition MAX_PATH_LENGTH :: int where
  "MAX_PATH_LENGTH = 8"

definition MAX_PATHS :: int where
  "MAX_PATHS = 20"

definition MAX_LOAD_PER_INTERFACE :: int where
  "MAX_LOAD_PER_INTERFACE = 100"

subsection \<open>Dictionaries and floats\<close>

definition dict_get :: "('k \<times> 'v) list \<Rightarrow> 'k \<Rightarrow> 'v \<Rightarrow> 'v" where
  "dict_get d k dflt = (case map_of d k of None \<Rightarrow> dflt | Some x \<Rightarrow> x)"

text \<open>Equality of two Python dicts: the same keys with the same values, in any order.\<close>

definition dict_eq :: "('k \<times> 'v) list \<Rightarrow> ('k \<times> 'v) list \<Rightarrow> bool" where
  "dict_eq d1 d2 = (set d1 = set d2)"

text \<open>\<^verbatim>\<open>x < best\<close> where \<^verbatim>\<open>best\<close> starts as \<^verbatim>\<open>float('inf')\<close>.\<close>

fun lt_inf :: "real \<Rightarrow> real option \<Rightarrow> bool" where
  "lt_inf x None = True"
| "lt_inf x (Some b) = (x < b)"

text \<open>\<^verbatim>\<open>h > eps\<close> where \<^verbatim>\<open>h\<close> may still be \<^verbatim>\<open>float('inf')\<close>.\<close>

fun inf_gt :: "real option \<Rightarrow> real \<Rightarrow> bool" where
  "inf_gt None e = True"
| "inf_gt (Some h) e = (h > e)"

text \<open>Python's \<^verbatim>\<open>int(x)\<close> on a float truncates towards zero.\<close>

definition py_int :: "real \<Rightarrow> int" where
  "py_int x = (if 0 \<le> x then \<lfloor>x\<rfloor> else \<lceil>x\<rceil>)"

subsection \<open>Exceptions\<close>

datatype error = ValueError | ZeroDivisionError | OverflowError

definition bind_err :: "error + 'a \<Rightarrow> ('a \<Rightarrow> error + 'b) \<Rightarrow> error + 'b" where
  "bind_err m f = (case m of Inl e \<Rightarrow> Inl e | Inr x \<Rightarrow> f x)"

subsection \<open>Binary64 arithmetic\<close>

text \<open>
  A Python \<^verbatim>\<open>float\<close> is an IEEE-754 binary64 number: a finite value, an infinity or
  a NaN (the sign of a zero plays no role below).  Every operation returns the exact
  result rounded to the nearest representable number, ties to the even significand.
  A number of magnitude in \<open>[2^e, 2^(e+1))\<close> is rounded to a multiple of
  \<open>2^(e-52)\<close>; under the smallest normal exponent \<open>-1022\<close> the spacing stays
  \<open>2^(-1074)\<close>, and a result that rounds to magnitude \<open>2^1024\<close> or more is an
  infinity.
\<close>

datatype pyfloat = Fin real | PInf | NInf | NaN

definition round_even :: "real \<Rightarrow> int" where
  "round_even y =
     (let f = \<lfloor>y\<rfloor>; d = y - of_int f
      in if d < 1 / 2 then f else if d > 1 / 2 then f + 1 else if even f then f else f + 1)"

definition binade :: "real \<Rightarrow> int" where
  "binade x = \<lfloor>log 2 \<bar>x\<bar>\<rfloor>"

definition fl64 :: "real \<Rightarrow> pyfloat" where
  "fl64 x =
     (if x = 0 then Fin 0
      else
        (let q = 2 powi (max (binade x) (- 1022) - 52);
             r = of_int (round_even (x / q)) * q
         in if r \<ge> 2 powi 1024 then PInf
            else if r \<le> - (2 powi 1024) then NInf
            else Fin r))"

fun fneg :: "pyfloat \<Rightarrow> pyfloat" where
  "fneg (Fin x) = Fin (- x)"
| "fneg PInf = NInf"
| "fneg NInf = PInf"
| "fneg NaN = NaN"

fun fadd :: "pyfloat \<Rightarrow> pyfloat \<Rightarrow> pyfloat" where
  "fadd (Fin x) (Fin y) = fl64 (x + y)"
| "fadd NaN y = NaN"
| "fadd x NaN = NaN"
| "fadd PInf NInf = NaN"
| "fadd NInf PInf = NaN"
| "fadd PInf y = PInf"
| "fadd NInf y = NInf"
| "fadd (Fin x) y = y"

definition fsub :: "pyfloat \<Rightarrow> pyfloat \<Rightarrow> pyfloat" where
  "fsub x y = fadd x (fneg y)"

definition inf_of_sign :: "bool \<Rightarrow> pyfloat" where
  "inf_of_sign positive = (if positive then PInf else NInf)"

fun fmul :: "pyfloat \<Rightarrow> pyfloat \<Rightarrow> pyfloat" where
  "fmul (Fin x) (Fin y) = fl64 (x * y)"
| "fmul NaN y = NaN"
| "fmul x NaN = NaN"
| "fmul (Fin x) y = (if x = 0 then NaN else inf_of_sign ((0 < x) = (y = PInf)))"
| "fmul x (Fin y) = (if y = 0 then NaN else inf_of_sign ((0 < y) = (x = PInf)))"
| "fmul x y = inf_of_sign (x = y)"

text \<open>\<^verbatim>\<open>x / y\<close> on floats raises \<^verbatim>\<open>ZeroDivisionError\<close> when the divisor is zero.\<close>

fun fdiv :: "pyfloat \<Rightarrow> pyfloat \<Rightarrow> error + pyfloat" where
  "fdiv x (Fin y) =
     (if y = 0 then Inl ZeroDivisionError
      else case x of
        Fin a \<Rightarrow> Inr (fl64 (a / y))
      | NaN \<Rightarrow> Inr NaN
      | _ \<Rightarrow> Inr (inf_of_sign ((0 < y) = (x = PInf))))"
| "fdiv NaN y = Inr NaN"
| "fdiv x NaN = Inr NaN"
| "fdiv (Fin x) y = Inr (Fin 0)"
| "fdiv x y = Inr NaN"

text \<open>\<^verbatim>\<open>math.sqrt\<close> raises \<^verbatim>\<open>ValueError\<close> on a negative argument.\<close>

fun fsqrt :: "pyfloat \<Rightarrow> error + pyfloat" where
  "fsqrt (Fin x) = (if x < 0 then Inl ValueError else Inr (fl64 (sqrt x)))"
| "fsqrt PInf = Inr PInf"
| "fsqrt NInf = Inl ValueError"
| "fsqrt NaN = Inr NaN"

text \<open>The comparisons \<^verbatim>\<open>x <= y\<close> and \<^verbatim>\<open>x < y\<close>: false when an operand is a NaN.\<close>

fun fle :: "pyfloat \<Rightarrow> pyfloat \<Rightarrow> bool" where
  "fle (Fin x) (Fin y) = (x \<le> y)"
| "fle NaN y = False"
| "fle x NaN = False"
| "fle NInf y = True"
| "fle x PInf = True"
| "fle x y = False"

fun flt :: "pyfloat \<Rightarrow> pyfloat \<Rightarrow> bool" where
  "flt (Fin x) (Fin y) = (x < y)"
| "flt NaN y = False"
| "flt x NaN = False"
| "flt x NInf = False"
| "flt PInf y = False"
| "flt x y = True"

text \<open>\<^verbatim>\<open>int(x)\<close> truncates a finite float towards zero, and raises
  \<^verbatim>\<open>OverflowError\<close> on an infinity and \<^verbatim>\<open>ValueError\<close> on a NaN.\<close>

fun float_to_int :: "pyfloat \<Rightarrow> error + int" where
  "float_to_int (Fin x) = Inr (py_int x)"
| "float_to_int NaN = Inl ValueError"
| "float_to_int x = Inl OverflowError"

text \<open>An \<^verbatim>\<open>int\<close> operand of a float operation is converted to the nearest float;
  the conversion raises \<^verbatim>\<open>OverflowError\<close> when the integer is too large.\<close>

definition int_to_float :: "int \<Rightarrow> error + pyfloat" where
  "int_to_float n = (case fl64 (of_int n) of Fin x \<Rightarrow> Inr (Fin x) | _ \<Rightarrow> Inl OverflowError)"

subsection \<open>Interface: the cost model\<close>

record Interface =
  name :: string
  capacity :: real
  epsilon :: real
  eta :: real


definition cost :: "Interface \<Rightarrow> int \<Rightarrow> real" where
  "cost itf n =
     (if n \<le> 0 then 0
      else epsilon itf * of_int n + eta itf * of_int n * of_int (n - 1) / 2)"

definition headroom :: "Interface \<Rightarrow> int \<Rightarrow> real" where
  "headroom itf n = capacity itf - cost itf n"

text \<open>
  \<^verbatim>\<open>Interface.cost\<close> as the interpreter computes it, in binary64; the fields of the
  interface are binary64 values and \<^verbatim>\<open>n\<close> is converted at each product.
\<close>

definition cost_float :: "Interface \<Rightarrow> int \<Rightarrow> error + pyfloat" where
  "cost_float itf n =
     (if n \<le> 0 then Inr (Fin 0)
      else
        bind_err (int_to_float n) (\<lambda>fn.
        bind_err (int_to_float (n - 1)) (\<lambda>fn1.
        bind_err (fdiv (fmul (fmul (Fin (eta itf)) fn) fn1) (Fin 2)) (\<lambda>quad.
          Inr (fadd (fmul (Fin (epsilon itf)) fn) quad)))))"

text \<open>The binary64 number that the literal \<^verbatim>\<open>1e-12\<close> denotes.\<close>

definition float_1e_12 :: real where
  "float_1e_12 = 4951760157141521 / 2 ^ 92"

text \<open>
  \<^verbatim>\<open>Interface.max_n\<close> of routing_engine_v1.py (and lambda_floor.py,
  accumulated_cost.py), operation by operation in binary64.  The two tests on the fields
  compare binary64 values and are exact.
\<close>

definition max_n :: "Interface \<Rightarrow> error + int" where
  "max_n itf =
     (if eta itf < float_1e_12
      then (if epsilon itf > 0
            then bind_err (fdiv (Fin (capacity itf)) (Fin (epsilon itf))) float_to_int
            else Inr 999)
      else
        bind_err (fdiv (Fin (eta itf)) (Fin 2)) (\<lambda>a.
        bind_err (fdiv (Fin (eta itf)) (Fin 2)) (\<lambda>h.
          (let b = fsub (Fin (epsilon itf)) h;
               c = fneg (Fin (capacity itf));
               disc = fsub (fmul b b) (fmul (fmul (Fin 4) a) c)
           in if fle (Fin 0) disc
              then bind_err (fsqrt disc) (\<lambda>s.
                   bind_err (fdiv (fadd (fneg b) s) (fmul (Fin 2) a)) (\<lambda>r.
                   bind_err (float_to_int r) (\<lambda>n. Inr (max 0 n))))
              else Inr 0))))"

text \<open>
  \<^verbatim>\<open>Interface.max_n\<close> of admissibility_unified_V4.py: the result is clamped, and the
  discriminant is tested with \<^verbatim>\<open>disc < 0\<close>.
\<close>

definition max_n_V4 :: "Interface \<Rightarrow> error + int" where
  "max_n_V4 itf =
     (if eta itf < float_1e_12
      then bind_err
             (if epsilon itf > 0
              then bind_err (fdiv (Fin (capacity itf)) (Fin (epsilon itf))) float_to_int
              else Inr 999)
             (\<lambda>n. Inr (min n MAX_LOAD_PER_INTERFACE))
      else
        bind_err (fdiv (Fin (eta itf)) (Fin 2)) (\<lambda>a.
        bind_err (fdiv (Fin (eta itf)) (Fin 2)) (\<lambda>h.
          (let b = fsub (Fin (epsilon itf)) h;
               c = fneg (Fin (capacity itf));
               disc = fsub (fmul b b) (fmul (fmul (Fin 4) a) c)
           in if flt disc (Fin 0) then Inr 0
              else bind_err (fsqrt disc) (\<lambda>s.
                   bind_err (fdiv (fadd (fneg b) s) (fmul (Fin 2) a)) (\<lambda>r.
                   bind_err (float_to_int r) (\<lambda>n.
                     Inr (min (max 0 n) MAX_LOAD_PER_INTERFACE))))))))"

subsection \<open>LoadVector\<close>

text \<open>
  The dataclass has the single field \<^verbatim>\<open>loads\<close>, a dict from interface name to
  load; the model identifies the vector with that dict.
\<close>

type_synonym LoadVector = "(string \<times> int) list"

definition getitem :: "LoadVector \<Rightarrow> string \<Rightarrow> int" where
  "getitem l nm = dict_get l nm 0"

text \<open>
  \<^verbatim>\<open>LoadVector.__eq__\<close> of accumulated_cost.py and admissibility_unified_V4.py:
  equality of content over the keys of both, a missing key reading as zero.
\<close>

definition LoadVector_eq :: "LoadVector \<Rightarrow> LoadVector \<Rightarrow> bool" where
  "LoadVector_eq a b = list_all (\<lambda>k. getitem a k = getitem b k) (map fst a @ map fst b)"

text \<open>
  The loop \<^verbatim>\<open>for name, contrib in c.items(): d[name] = d.get(name, 0) + contrib * k\<close>,
  written out in route_obligation, relax_routing and compute_load_from_routed, and
  its twin with a minus sign.
\<close>

definition add_contrib :: "LoadVector \<Rightarrow> (string \<times> int) list \<Rightarrow> int \<Rightarrow> LoadVector" where
  "add_contrib d c k =
     fold (\<lambda>item acc. AList.update (fst item) (dict_get acc (fst item) 0 + snd item * k) acc) c d"

definition sub_contrib :: "LoadVector \<Rightarrow> (string \<times> int) list \<Rightarrow> int \<Rightarrow> LoadVector" where
  "sub_contrib d c k =
     fold (\<lambda>item acc. AList.update (fst item) (dict_get acc (fst item) 0 - snd item * k) acc) c d"


subsection \<open>Network and paths\<close>

record Edge =
  u :: string
  v :: string
  interface :: Interface

definition other :: "Edge \<Rightarrow> string \<Rightarrow> string" where
  "other e node = (if node = u e then v e else u e)"

record Network =
  nodes :: "string list"
  edges :: "Edge list"

text \<open>
  \<^verbatim>\<open>Network.__post_init__\<close> fills a \<^verbatim>\<open>defaultdict(list)\<close>, here a function whose
  default is the empty list, and the registry of interfaces by name.
\<close>

definition adjacency :: "Network \<Rightarrow> string \<Rightarrow> Edge list" where
  "adjacency net =
     fold (\<lambda>e adj. let adj1 = adj(u e := adj (u e) @ [e])
                    in adj1(v e := adj1 (v e) @ [e]))
          (edges net) (\<lambda>_. [])"

definition interfaces_dict :: "Network \<Rightarrow> (string \<times> Interface) list" where
  "interfaces_dict net =
     fold (\<lambda>e d. AList.update (name (interface e)) (interface e) d) (edges net) []"

definition neighbors :: "Network \<Rightarrow> string \<Rightarrow> (string \<times> Edge) list" where
  "neighbors net node = map (\<lambda>e. (other e node, e)) (adjacency net node)"

definition interfaces :: "Network \<Rightarrow> Interface list" where
  "interfaces net = map snd (interfaces_dict net)"

definition get_interface :: "Network \<Rightarrow> string \<Rightarrow> Interface option" where
  "get_interface net nm = map_of (interfaces_dict net) nm"

record Path =
  p_nodes :: "string list"
  p_edges :: "Edge list"

definition load_contribution :: "Path \<Rightarrow> (string \<times> int) list" where
  "load_contribution p =
     fold (\<lambda>e loads. AList.update (name (interface e))
                        (dict_get loads (name (interface e)) 0 + 1) loads)
          (p_edges p) []"

text \<open>
  The nested function \<^verbatim>\<open>dfs\<close> of find_paths and find_all_paths, with the list
  \<^verbatim>\<open>paths\<close> it appends to passed through, and its \<^verbatim>\<open>for\<close> loop over the
  neighbours.  The set \<^verbatim>\<open>visited\<close> and the two buffers are restored after each
  recursive call, so the loop goes on with the values it had.
\<close>

function dfs :: "Network \<Rightarrow> string \<Rightarrow> int \<Rightarrow> int \<Rightarrow> string \<Rightarrow> string set \<Rightarrow> string list
                  \<Rightarrow> Edge list \<Rightarrow> Path list \<Rightarrow> Path list"
  and dfs_loop :: "Network \<Rightarrow> string \<Rightarrow> int \<Rightarrow> int \<Rightarrow> (string \<times> Edge) list \<Rightarrow> string set
                  \<Rightarrow> string list \<Rightarrow> Edge list \<Rightarrow> Path list \<Rightarrow> Path list"
where
  "dfs net tgt max_paths max_length current visited path_nodes path_edges paths =
     (if int (length paths) \<ge> max_paths \<or> int (length path_edges) > max_length then paths
      else if current = tgt
      then paths @ [\<lparr>p_nodes = path_nodes, p_edges = path_edges\<rparr>]
      else dfs_loop net tgt max_paths max_length (neighbors net current)
             visited path_nodes path_edges paths)"
| "dfs_loop net tgt max_paths max_length [] visited path_nodes path_edges paths = paths"
| "dfs_loop net tgt max_paths max_length (ne # rest) visited path_nodes path_edges paths =
     (if fst ne \<notin> visited
      then dfs_loop net tgt max_paths max_length rest visited path_nodes path_edges
             (dfs net tgt max_paths max_length (fst ne) (insert (fst ne) visited)
                (path_nodes @ [fst ne]) (path_edges @ [snd ne]) paths)
      else dfs_loop net tgt max_paths max_length rest visited path_nodes path_edges paths)"
  by pat_completeness auto
termination
  by (relation "inv_image (less_than <*lex*> less_than)
        (\<lambda>x. case x of
           Inl (net, tgt, mp, ml, cur, vis, pn, pe, ps) \<Rightarrow>
             (2 * nat (ml + 1 - int (length pe)), 0)
         | Inr (net, tgt, mp, ml, nbrs, vis, pn, pe, ps) \<Rightarrow>
             (2 * nat (ml - int (length pe)) + 1, length nbrs))")
     auto

text \<open>find_all_paths of lambda_floor.py; \<^verbatim>\<open>paths.sort(key=...)\<close> is a stable sort.\<close>

definition find_all_paths :: "Network \<Rightarrow> string \<Rightarrow> string \<Rightarrow> int \<Rightarrow> int \<Rightarrow> Path list" where
  "find_all_paths net source target max_length max_paths =
     (if source = target then [\<lparr>p_nodes = [source], p_edges = []\<rparr>]
      else sort_key (\<lambda>p. length (p_edges p))
             (dfs net target max_paths max_length source {source} [source] [] []))"


text \<open>
  find_all_paths of admissibility_unified_V4.py: the bounds default to \<^verbatim>\<open>None\<close>, and
  \<^verbatim>\<open>max_length or Constants.MAX_PATH_LENGTH\<close> replaces \<^verbatim>\<open>None\<close> and \<^verbatim>\<open>0\<close> alike.
\<close>

definition or_default :: "int option \<Rightarrow> int \<Rightarrow> int" where
  "or_default x d = (case x of None \<Rightarrow> d | Some n \<Rightarrow> if n = 0 then d else n)"

definition find_all_paths_V4 ::
  "Network \<Rightarrow> string \<Rightarrow> string \<Rightarrow> int option \<Rightarrow> int option \<Rightarrow> Path list" where
  "find_all_paths_V4 net source target max_length max_paths =
     find_all_paths net source target
       (or_default max_length MAX_PATH_LENGTH) (or_default max_paths MAX_PATHS)"



subsection \<open>Cost and admissibility of a load\<close>

text \<open>
  total_cost of lambda_floor.py sums over the items of the load whose name is in
  \<^verbatim>\<open>itf_map = {i.name: i for i in interfaces}\<close>; an item under another name is
  skipped and adds nothing.
\<close>

definition itf_map :: "Interface list \<Rightarrow> (string \<times> Interface) list" where
  "itf_map itfs = fold (\<lambda>i d. AList.update (name i) i d) itfs []"

definition total_cost :: "LoadVector \<Rightarrow> Interface list \<Rightarrow> real" where
  "total_cost load itfs =
     (let m = itf_map itfs
      in sum_list (map (\<lambda>item. case map_of m (fst item) of
                                  Some itf \<Rightarrow> cost itf (snd item)
                                | None \<Rightarrow> 0) load))"

text \<open>total_cost of admissibility_unified_V4.py sums over the interfaces.\<close>

definition total_cost_V4 :: "LoadVector \<Rightarrow> Interface list \<Rightarrow> real" where
  "total_cost_V4 load itfs = sum_list (map (\<lambda>itf. cost itf (getitem load (name itf))) itfs)"

definition residual_fraction :: "LoadVector \<Rightarrow> Interface list \<Rightarrow> real \<times> string" where
  "residual_fraction load itfs =
     fold (\<lambda>itf acc.
             (let n = getitem load (name itf);
                  frac = (if capacity itf > 0 then cost itf n / capacity itf else 1)
              in if frac > fst acc then (frac, name itf) else acc))
          itfs (0, [])"

fun is_admissible :: "LoadVector \<Rightarrow> Interface list \<Rightarrow> bool" where
  "is_admissible load [] = True"
| "is_admissible load (itf # rest) =
     (if headroom itf (getitem load (name itf)) \<le> EPS_SLACK then False
      else is_admissible load rest)"

text \<open>
  min_headroom of admissibility_unified_V4.py; History._make_step of
  accumulated_cost.py and analyze_routing run the same loop.
\<close>

definition min_headroom :: "LoadVector \<Rightarrow> Interface list \<Rightarrow> real option \<times> string" where
  "min_headroom load itfs =
     fold (\<lambda>itf acc.
             (let h = headroom itf (getitem load (name itf))
              in if lt_inf h (fst acc) then (Some h, name itf) else acc))
          itfs (None, [])"

definition transition_cost :: "LoadVector \<Rightarrow> LoadVector \<Rightarrow> Interface list \<Rightarrow> real" where
  "transition_cost L_prev L_next itfs =
     fold (\<lambda>itf c.
             (let E_prev = cost itf (getitem L_prev (name itf));
                  E_next = cost itf (getitem L_next (name itf))
              in c + \<bar>E_next - E_prev\<bar>))
          itfs 0"

subsection \<open>History\<close>

record HistoryStep =
  step_load :: LoadVector
  step_time :: real
  step_transition_cost :: real
  step_is_admissible :: bool
  step_min_headroom :: "real option"
  step_bottleneck :: string

record History =
  h_interfaces :: "Interface list"
  steps :: "HistoryStep list"

definition make_step :: "History \<Rightarrow> LoadVector \<Rightarrow> real \<Rightarrow> real \<Rightarrow> HistoryStep" where
  "make_step h load t t_cost =
     (let mh = min_headroom load (h_interfaces h)
      in \<lparr>step_load = load, step_time = t, step_transition_cost = t_cost,
          step_is_admissible = inf_gt (fst mh) EPS_SLACK,
          step_min_headroom = fst mh, step_bottleneck = snd mh\<rparr>)"

text \<open>History.append; \<^verbatim>\<open>self.steps[-1]\<close> is read only when the list is not empty.\<close>

definition History_append :: "History \<Rightarrow> LoadVector \<Rightarrow> History" where
  "History_append h load =
     (if steps h = [] then h\<lparr>steps := steps h @ [make_step h load 0 0]\<rparr>
      else
        (let prev = last (steps h);
             t_cost = transition_cost (step_load prev) load (h_interfaces h);
             new_time = step_time prev + t_cost
         in h\<lparr>steps := steps h @ [make_step h load new_time t_cost]\<rparr>))"

subsection \<open>Obligations and the admission controller\<close>

record Obligation =
  ob_id :: int
  source :: string
  target :: string
  demand :: int

record RoutedObligation =
  obligation :: Obligation
  path :: Path

text \<open>
  The body of the loop over the candidate paths in route_obligation; the pair is
  \<^verbatim>\<open>(best_path, best_cost)\<close>.  The two variants differ in total_cost only.
\<close>

definition route_step ::
  "(LoadVector \<Rightarrow> Interface list \<Rightarrow> real) \<Rightarrow> Interface list \<Rightarrow> Obligation \<Rightarrow> LoadVector
     \<Rightarrow> Path \<Rightarrow> Path option \<times> real option \<Rightarrow> Path option \<times> real option" where
  "route_step tc itfs ob existing_load p best =
     (let new_load = add_contrib existing_load (load_contribution p) (demand ob)
      in if \<not> is_admissible new_load itfs then best
         else (let c = tc new_load itfs
               in if lt_inf c (snd best) then (Some p, Some c) else best))"

definition route_obligation ::
  "Network \<Rightarrow> Obligation \<Rightarrow> LoadVector \<Rightarrow> int \<Rightarrow> RoutedObligation option" where
  "route_obligation net ob existing_load max_paths =
     (let paths = find_all_paths net (source ob) (target ob) 6 max_paths;
          itfs = interfaces net;
          best = fold (route_step total_cost itfs ob existing_load) paths (None, None)
      in case fst best of
           None \<Rightarrow> None
         | Some p \<Rightarrow> Some \<lparr>obligation = ob, path = p\<rparr>)"

definition route_obligation_V4 ::
  "Network \<Rightarrow> Obligation \<Rightarrow> LoadVector \<Rightarrow> int \<Rightarrow> RoutedObligation option" where
  "route_obligation_V4 net ob existing_load max_paths =
     (let paths = find_all_paths_V4 net (source ob) (target ob) None (Some max_paths);
          itfs = interfaces net;
          best = fold (route_step total_cost_V4 itfs ob existing_load) paths (None, None)
      in case fst best of
           None \<Rightarrow> None
         | Some p \<Rightarrow> Some \<lparr>obligation = ob, path = p\<rparr>)"

subsection \<open>The admission controller of routing_engine_v1.py\<close>







subsection \<open>Relaxation\<close>

definition compute_load_from_routed :: "RoutedObligation list \<Rightarrow> LoadVector" where
  "compute_load_from_routed routed =
     fold (\<lambda>r loads. add_contrib loads (load_contribution (path r)) (demand (obligation r)))
          routed []"

record RelaxState =
  current :: "RoutedObligation list"
  current_load :: LoadVector
  current_cost :: real
  improved :: bool

text \<open>
  The body of the inner loop of relax_routing at index \<open>i\<close>, which ranges over
  \<^verbatim>\<open>range(len(current))\<close>, so \<open>current[i]\<close> exists.  The two variants of
  relax_routing run this loop with their own route_obligation and total_cost.
\<close>

definition relax_one ::
  "(Obligation \<Rightarrow> LoadVector \<Rightarrow> RoutedObligation option) \<Rightarrow> (LoadVector \<Rightarrow> real)
     \<Rightarrow> nat \<Rightarrow> RelaxState \<Rightarrow> RelaxState" where
  "relax_one route tc i s =
     (let ob = obligation (current s ! i);
          old_contrib = load_contribution (path (current s ! i));
          remaining_load = sub_contrib (current_load s) old_contrib (demand ob)
      in case route ob remaining_load of
           None \<Rightarrow> s
         | Some new_routed \<Rightarrow>
             (let new_contrib = load_contribution (path new_routed);
                  new_load = add_contrib remaining_load new_contrib (demand ob);
                  new_cost = tc new_load
              in if new_cost + EPS_COST < current_cost s
                 then s\<lparr>current := (current s)[i := new_routed], current_load := new_load,
                        current_cost := new_cost, improved := True\<rparr>
                 else s))"

definition relax_pass ::
  "(Obligation \<Rightarrow> LoadVector \<Rightarrow> RoutedObligation option) \<Rightarrow> (LoadVector \<Rightarrow> real)
     \<Rightarrow> RelaxState \<Rightarrow> RelaxState" where
  "relax_pass route tc s =
     fold (relax_one route tc) [0 ..< length (current s)] (s\<lparr>improved := False\<rparr>)"

text \<open>The outer loop \<^verbatim>\<open>for _ in range(iterations)\<close> with its \<^verbatim>\<open>break\<close>.\<close>

fun relax_iter ::
  "(Obligation \<Rightarrow> LoadVector \<Rightarrow> RoutedObligation option) \<Rightarrow> (LoadVector \<Rightarrow> real)
     \<Rightarrow> nat \<Rightarrow> RelaxState \<Rightarrow> RelaxState" where
  "relax_iter route tc 0 s = s"
| "relax_iter route tc (Suc n) s =
     (let s' = relax_pass route tc s
      in if improved s' then relax_iter route tc n s' else s')"

definition relax_routing ::
  "Network \<Rightarrow> RoutedObligation list \<Rightarrow> int \<Rightarrow> RoutedObligation list \<times> LoadVector" where
  "relax_routing net routed iterations =
     (let itfs = interfaces net;
          load0 = compute_load_from_routed routed;
          s = relax_iter (\<lambda>ob l. route_obligation net ob l 10) (\<lambda>l. total_cost l itfs)
                (nat iterations)
                \<lparr>current = routed, current_load = load0,
                 current_cost = total_cost load0 itfs, improved = False\<rparr>
      in (current s, current_load s))"

definition relax_routing_V4 ::
  "Network \<Rightarrow> RoutedObligation list \<Rightarrow> int option
     \<Rightarrow> RoutedObligation list \<times> LoadVector \<times> real" where
  "relax_routing_V4 net routed iterations =
     (let iters = or_default iterations MAX_RELAX_ITERS;
          itfs = interfaces net;
          load0 = compute_load_from_routed routed;
          initial_cost = total_cost_V4 load0 itfs;
          s = relax_iter (\<lambda>ob l. route_obligation_V4 net ob l 10) (\<lambda>l. total_cost_V4 l itfs)
                (nat iters)
                \<lparr>current = routed, current_load = load0,
                 current_cost = initial_cost, improved = False\<rparr>
      in (current s, current_load s, initial_cost - current_cost s))"

subsection \<open>The floor estimator\<close>

record LambdaState =
  time_step :: nat
  raw_load :: LoadVector
  raw_cost :: real
  residual_load :: LoadVector
  lambda_E :: real
  lambda_sigma :: real
  bottleneck :: string
  action :: real
  relaxation_savings :: real

record EstState =
  history :: "LambdaState list"
  active_routed :: "RoutedObligation list"
  est_action :: real
  prev_load :: LoadVector

text \<open>
  The loop \<^verbatim>\<open>for t, ob in enumerate(obligation_stream)\<close> of estimate_lambda_floor in
  lambda_floor.py, from index \<open>t\<close> on; \<open>n\<close> is \<^verbatim>\<open>len(obligation_stream)\<close>.  The
  \<^verbatim>\<open>break\<close> leaves the loop with the state as it is; \<^verbatim>\<open>(t + 1) % relax_every\<close>
  raises when \<^verbatim>\<open>relax_every\<close> is zero.
\<close>

fun est_loop ::
  "Network \<Rightarrow> int \<Rightarrow> nat \<Rightarrow> nat \<Rightarrow> Obligation list \<Rightarrow> EstState \<Rightarrow> error + EstState" where
  "est_loop net relax_every n t [] st = Inr st"
| "est_loop net relax_every n t (ob # rest) st =
     (case route_obligation net ob (compute_load_from_routed (active_routed st)) 10 of
        None \<Rightarrow> Inr st
      | Some routed \<Rightarrow>
          (let itfs = interfaces net;
               active = active_routed st @ [routed];
               new_load = compute_load_from_routed active;
               act = est_action st + transition_cost (prev_load st) new_load itfs
           in if relax_every = 0 then Inl ZeroDivisionError
              else if (int t + 1) mod relax_every = 0 \<or> int t = int n - 1
              then
                (let rc = total_cost new_load itfs;
                     relaxed = relax_routing net active 3;
                     lam = total_cost (snd relaxed) itfs;
                     rf = residual_fraction (snd relaxed) itfs;
                     state = \<lparr>time_step = t, raw_load = new_load, raw_cost = rc,
                              residual_load = snd relaxed, lambda_E = lam,
                              lambda_sigma = fst rf, bottleneck = snd rf,
                              action = act, relaxation_savings = rc - lam\<rparr>
                 in est_loop net relax_every n (Suc t) rest
                      \<lparr>history = history st @ [state], active_routed = fst relaxed,
                       est_action = act, prev_load = new_load\<rparr>)
              else est_loop net relax_every n (Suc t) rest
                     \<lparr>history = history st, active_routed = active,
                      est_action = act, prev_load = new_load\<rparr>))"

definition est_init :: EstState where
  "est_init = \<lparr>history = [], active_routed = [], est_action = 0, prev_load = []\<rparr>"

definition estimate_lambda_floor ::
  "Network \<Rightarrow> Obligation list \<Rightarrow> int \<Rightarrow> error + LambdaState list" where
  "estimate_lambda_floor net obligation_stream relax_every =
     (case est_loop net relax_every (length obligation_stream) 0 obligation_stream est_init of
        Inl e \<Rightarrow> Inl e
      | Inr st \<Rightarrow> Inr (history st))"

text \<open>
  estimate_lambda_floor of admissibility_unified_V4.py: a report only when
  \<^verbatim>\<open>(t + 1) % relax_every == 0\<close>; the saturation fraction divides by the capacity
  of the bottleneck interface.
\<close>

record LambdaState_V4 =
  v4_time_step :: nat
  v4_raw_cost :: real
  v4_lambda_E :: real
  v4_lambda_sigma :: real
  v4_bottleneck :: string
  v4_action :: real
  v4_relaxation_savings :: real
  v4_n_obligations :: nat

record EstState_V4 =
  v4_history :: "LambdaState_V4 list"
  v4_active_routed :: "RoutedObligation list"
  v4_est_action :: real
  v4_prev_load :: LoadVector

fun est_loop_V4 ::
  "Network \<Rightarrow> int \<Rightarrow> nat \<Rightarrow> Obligation list \<Rightarrow> EstState_V4 \<Rightarrow> error + EstState_V4" where
  "est_loop_V4 net relax_every t [] st = Inr st"
| "est_loop_V4 net relax_every t (ob # rest) st =
     (case route_obligation_V4 net ob (compute_load_from_routed (v4_active_routed st)) 10 of
        None \<Rightarrow> Inr st
      | Some routed \<Rightarrow>
          (let itfs = interfaces net;
               active = v4_active_routed st @ [routed];
               new_load = compute_load_from_routed active;
               act = v4_est_action st + transition_cost (v4_prev_load st) new_load itfs
           in if relax_every = 0 then Inl ZeroDivisionError
              else if (int t + 1) mod relax_every = 0
              then
                (let rc = total_cost_V4 new_load itfs;
                     relaxed = relax_routing_V4 net active None;
                     residual = fst (snd relaxed);
                     lam = total_cost_V4 residual itfs;
                     bn = snd (min_headroom residual itfs)
                 in case get_interface net bn of
                      None \<Rightarrow>
                        est_loop_V4 net relax_every (Suc t) rest
                          \<lparr>v4_history = v4_history st @
                             [\<lparr>v4_time_step = t, v4_raw_cost = rc, v4_lambda_E = lam,
                               v4_lambda_sigma = 0, v4_bottleneck = bn, v4_action = act,
                               v4_relaxation_savings = snd (snd relaxed),
                               v4_n_obligations = length (fst relaxed)\<rparr>],
                           v4_active_routed = fst relaxed,
                           v4_est_action = act, v4_prev_load = new_load\<rparr>
                    | Some bn_itf \<Rightarrow>
                        if capacity bn_itf = 0 then Inl ZeroDivisionError
                        else est_loop_V4 net relax_every (Suc t) rest
                          \<lparr>v4_history = v4_history st @
                             [\<lparr>v4_time_step = t, v4_raw_cost = rc, v4_lambda_E = lam,
                               v4_lambda_sigma =
                                 cost bn_itf (getitem residual bn) / capacity bn_itf,
                               v4_bottleneck = bn, v4_action = act,
                               v4_relaxation_savings = snd (snd relaxed),
                               v4_n_obligations = length (fst relaxed)\<rparr>],
                           v4_active_routed = fst relaxed,
                           v4_est_action = act, v4_prev_load = new_load\<rparr>)
              else est_loop_V4 net relax_every (Suc t) rest
                     \<lparr>v4_history = v4_history st, v4_active_routed = active,
                      v4_est_action = act, v4_prev_load = new_load\<rparr>))"

definition estimate_lambda_floor_V4 ::
  "Network \<Rightarrow> Obligation list \<Rightarrow> int \<Rightarrow> error + LambdaState_V4 list" where
  "estimate_lambda_floor_V4 net obligation_stream relax_every =
     (case est_loop_V4 net relax_every 0 obligation_stream
             \<lparr>v4_history = [], v4_active_routed = [], v4_est_action = 0, v4_prev_load = []\<rparr> of
        Inl e \<Rightarrow> Inl e
      | Inr st \<Rightarrow> Inr (v4_history st))"

subsection \<open>Predicates and examples of the statements\<close>

text \<open>
  The interface of the concrete scenario of the specification and of
  example_lambda_saturation.
\<close>

definition I1 :: Interface where
  "I1 = \<lparr>name = ''I1'', capacity = 8, epsilon = 1, eta = 1/2\<rparr>"

text \<open>
  A History after the calls \<^verbatim>\<open>append(l)\<close> for the loads
  \<open>l\<close> of a list, in order.
\<close>

definition appends :: "History \<Rightarrow> LoadVector list \<Rightarrow> History" where
  "appends h ls = fold (\<lambda>l h. History_append h l) ls h"

text \<open>
  The interfaces \<^verbatim>\<open>Interface("I", 4.1, 0.01, 0.0)\<close>,
  \<^verbatim>\<open>Interface("I", 11258999068426244.0, 5.0, 0.0)\<close>,
  \<^verbatim>\<open>Interface("I", 2.0**1000, 2.0**-1000, 0.0)\<close> and
  \<^verbatim>\<open>Interface("I", 0.5, 0.5, 0.4)\<close>; a field holds the binary64 value of its
  literal.
\<close>

definition I_frac :: Interface where
  "I_frac = \<lparr>name = ''I'', capacity = 2308094809027379 / 2 ^ 49,
     epsilon = 5764607523034235 / 2 ^ 59, eta = 0\<rparr>"

definition I_big :: Interface where
  "I_big = \<lparr>name = ''I'', capacity = 11258999068426244, epsilon = 5, eta = 0\<rparr>"

definition I_huge :: Interface where
  "I_huge = \<lparr>name = ''I'', capacity = 2 ^ 1000, epsilon = 1 / 2 ^ 1000, eta = 0\<rparr>"

definition I_half :: Interface where
  "I_half = \<lparr>name = ''I'', capacity = 1 / 2, epsilon = 1 / 2,
     eta = 3602879701896397 / 2 ^ 53\<rparr>"







text \<open>A triangle over one interface.\<close>

definition tri :: Network where
  "tri = \<lparr>nodes = [''A'', ''B'', ''C''],
          edges = [\<lparr>u = ''A'', v = ''B'', interface = I1\<rparr>,
                   \<lparr>u = ''B'', v = ''C'', interface = I1\<rparr>,
                   \<lparr>u = ''A'', v = ''C'', interface = I1\<rparr>]\<rparr>"

text \<open>How many edges of a path run over the interface of a given name.\<close>

definition uses :: "Path \<Rightarrow> string \<Rightarrow> int" where
  "uses p nm = int (length (filter (\<lambda>e. name (interface e) = nm) (p_edges p)))"

text \<open>
  The hypothetical load route_obligation computes for a candidate path: the existing
  load plus the demand for every edge of the path.
\<close>

definition hyp_load :: "LoadVector \<Rightarrow> Obligation \<Rightarrow> Path \<Rightarrow> LoadVector" where
  "hyp_load load ob p = add_contrib load (load_contribution p) (demand ob)"

text \<open>
  Index \<open>i\<close> is the first cheapest admissible candidate of the list: it is
  admissible, no admissible candidate is cheaper, and every admissible candidate before
  it is strictly more expensive.
\<close>

definition first_cheapest :: "('a \<Rightarrow> bool) \<Rightarrow> ('a \<Rightarrow> real) \<Rightarrow> 'a list \<Rightarrow> nat \<Rightarrow> bool" where
  "first_cheapest adm c ps i \<longleftrightarrow>
     i < length ps \<and> adm (ps ! i)
     \<and> (\<forall>j < length ps. adm (ps ! j) \<longrightarrow> c (ps ! i) \<le> c (ps ! j))
     \<and> (\<forall>j < i. adm (ps ! j) \<longrightarrow> c (ps ! i) < c (ps ! j))"

text \<open>
  The answer of an admission controller over the candidates \<open>ps\<close>: absent
  when no candidate is admissible, the first cheapest admissible candidate otherwise.
\<close>

definition admitted :: "('a \<Rightarrow> bool) \<Rightarrow> ('a \<Rightarrow> real) \<Rightarrow> 'a list \<Rightarrow> 'a option \<Rightarrow> bool" where
  "admitted adm c ps res \<longleftrightarrow>
     (case res of
        None \<Rightarrow> \<forall>p \<in> set ps. \<not> adm p
      | Some x \<Rightarrow> \<exists>i. first_cheapest adm c ps i \<and> x = ps ! i)"


text \<open>A commitment of demand 1 across the triangle, and its direct path.\<close>

definition ob_AC :: Obligation where
  "ob_AC = \<lparr>ob_id = 0, source = ''A'', target = ''C'', demand = 1\<rparr>"


text \<open>
  The invariant of the loops of relax_routing: the running cost is the cost of the
  running load and never exceeds the cost \<open>c0\<close> at entry, the obligations
  are those at entry, and the running load has the content of the load of the current
  routings.
\<close>

definition relax_inv ::
  "(LoadVector \<Rightarrow> real) \<Rightarrow> real \<Rightarrow> Obligation list \<Rightarrow> RelaxState \<Rightarrow> bool" where
  "relax_inv tc c0 obs s \<longleftrightarrow>
     current_cost s \<le> c0
     \<and> current_cost s = tc (current_load s)
     \<and> map obligation (current s) = obs
     \<and> (\<forall>nm. getitem (current_load s) nm = getitem (compute_load_from_routed (current s)) nm)"

text \<open>
  Two parallel edges between two nodes, the first over an expensive interface, and a
  commitment routed over either.
\<close>

definition I3 :: Interface where
  "I3 = \<lparr>name = ''I3'', capacity = 100, epsilon = 5, eta = 1/2\<rparr>"

definition par :: Network where
  "par = \<lparr>nodes = [''A'', ''B''],
          edges = [\<lparr>u = ''A'', v = ''B'', interface = I3\<rparr>,
                   \<lparr>u = ''A'', v = ''B'', interface = I1\<rparr>]\<rparr>"

definition ob_AB :: Obligation where
  "ob_AB = \<lparr>ob_id = 0, source = ''A'', target = ''B'', demand = 1\<rparr>"

definition via_I3 :: RoutedObligation where
  "via_I3 = \<lparr>obligation = ob_AB,
             path = \<lparr>p_nodes = [''A'', ''B''], p_edges = [\<lparr>u = ''A'', v = ''B'', interface = I3\<rparr>]\<rparr>\<rparr>"

definition via_I1 :: RoutedObligation where
  "via_I1 = \<lparr>obligation = ob_AB,
             path = \<lparr>p_nodes = [''A'', ''B''], p_edges = [\<lparr>u = ''A'', v = ''B'', interface = I1\<rparr>]\<rparr>\<rparr>"

text \<open>
  The test that triggers a relaxation and a report at index \<open>t\<close> of a stream
  of length \<open>n\<close> in lambda_floor.py.
\<close>

definition report_due :: "int \<Rightarrow> nat \<Rightarrow> nat \<Rightarrow> bool" where
  "report_due relax_every n t \<longleftrightarrow> (int t + 1) mod relax_every = 0 \<or> int t = int n - 1"

text \<open>
  A report holds the load before a relaxation, the load the relaxation returned, and
  their costs.
\<close>

definition report_ok :: "Network \<Rightarrow> LambdaState \<Rightarrow> bool" where
  "report_ok net r \<longleftrightarrow>
     (\<exists>act. raw_load r = compute_load_from_routed act
            \<and> residual_load r = snd (relax_routing net act 3))
     \<and> raw_cost r = total_cost (raw_load r) (interfaces net)
     \<and> lambda_E r = total_cost (residual_load r) (interfaces net)
     \<and> relaxation_savings r = raw_cost r - lambda_E r
     \<and> lambda_E r \<le> raw_cost r"

text \<open>
  A network of two components that share the interfaces \<open>X\<close> and
  \<open>Y\<close>, and a stream of three commitments: one per component, then one over
  a single edge of \<open>Y\<close>.
\<close>

definition itf_X :: Interface where
  "itf_X = \<lparr>name = ''X'', capacity = 1000, epsilon = 2, eta = 13\<rparr>"

definition itf_Y :: Interface where
  "itf_Y = \<lparr>name = ''Y'', capacity = 1000, epsilon = 6, eta = 2\<rparr>"

definition itf_p :: Interface where
  "itf_p = \<lparr>name = ''p'', capacity = 1000, epsilon = 2, eta = 0\<rparr>"

definition itf_r :: Interface where
  "itf_r = \<lparr>name = ''r'', capacity = 1000, epsilon = 8, eta = 0\<rparr>"

definition net_floor :: Network where
  "net_floor =
     \<lparr>nodes = [''a'', ''b'', ''c'', ''d'', ''e'', ''f'', ''g'', ''h''],
      edges = [\<lparr>u = ''a'', v = ''b'', interface = itf_X\<rparr>,
               \<lparr>u = ''b'', v = ''c'', interface = itf_p\<rparr>,
               \<lparr>u = ''a'', v = ''c'', interface = itf_Y\<rparr>,
               \<lparr>u = ''d'', v = ''e'', interface = itf_Y\<rparr>,
               \<lparr>u = ''e'', v = ''f'', interface = itf_r\<rparr>,
               \<lparr>u = ''d'', v = ''f'', interface = itf_X\<rparr>,
               \<lparr>u = ''g'', v = ''h'', interface = itf_Y\<rparr>]\<rparr>"

definition stream_floor :: "Obligation list" where
  "stream_floor =
     [\<lparr>ob_id = 0, source = ''a'', target = ''c'', demand = 1\<rparr>,
      \<lparr>ob_id = 1, source = ''d'', target = ''f'', demand = 1\<rparr>,
      \<lparr>ob_id = 2, source = ''g'', target = ''h'', demand = 1\<rparr>]"

section \<open>Verification\<close>

lemma fold_add_sum_list:
  "fold (\<lambda>x (c::real). c + f x) xs a = a + sum_list (map f xs)"
  by (induction xs arbitrary: a) (simp_all add: algebra_simps)

lemma transition_cost_sum:
  "transition_cost A B itfs =
     sum_list (map (\<lambda>itf. \<bar>cost itf (getitem B (name itf)) - cost itf (getitem A (name itf))\<bar>) itfs)"
  by (simp add: transition_cost_def Let_def fold_add_sum_list)

lemma transition_cost_sym: "transition_cost A B itfs = transition_cost B A itfs"
  by (simp add: transition_cost_sum abs_minus_commute)

lemma transition_cost_nonneg: "0 \<le> transition_cost A B itfs"
  by (auto simp: transition_cost_sum intro!: sum_list_nonneg)


lemma LoadVector_eq_iff: "LoadVector_eq a b \<longleftrightarrow> (\<forall>k. getitem a k = getitem b k)"
proof
  assume h: "LoadVector_eq a b"
  show "\<forall>k. getitem a k = getitem b k"
  proof
    fix k
    show "getitem a k = getitem b k"
    proof (cases "k \<in> set (map fst a) \<union> set (map fst b)")
      case True
      then show ?thesis using h unfolding LoadVector_eq_def list_all_iff by auto
    next
      case False
      then have "map_of a k = None" "map_of b k = None"
        by (simp_all add: map_of_eq_None_iff)
      then show ?thesis by (simp add: getitem_def dict_get_def)
    qed
  qed
next
  assume "\<forall>k. getitem a k = getitem b k"
  then show "LoadVector_eq a b" by (simp add: LoadVector_eq_def list_all_iff)
qed

text \<open>
  Claim C5 fails on the code.  The docstring of transition_cost in accumulated_cost.py
  promises a cost that is zero if and only if \<open>L_prev == L_next\<close>.  The sum runs over
  the listed interfaces only: with an empty interface list the transition from the
  empty load to the load \<open>{I1: 1}\<close> costs zero, and with the interface list \<open>[I1]\<close>
  so does the transition from the empty load to \<open>{I2: 1}\<close>.  In both cases the two loads
  are different, for the content equality \<open>LoadVector.__eq__\<close> of accumulated_cost.py
  and for the dict equality of the plain dataclass of lambda_floor.py.
\<close>

theorem transition_cost_zero_unequal:
  "transition_cost [] [(''I1'', 1)] [] = 0
   \<and> \<not> LoadVector_eq [] [(''I1'', 1)]
   \<and> \<not> dict_eq [] [(''I1'', 1 :: int)]
   \<and> transition_cost [] [(''I2'', 1)] [I1] = 0
   \<and> \<not> LoadVector_eq [] [(''I2'', 1)]
   \<and> \<not> dict_eq [] [(''I2'', 1 :: int)]"
  by (simp add: transition_cost_def LoadVector_eq_def dict_eq_def getitem_def dict_get_def
      I1_def cost_def)

lemma append_interfaces [simp]: "h_interfaces (History_append h l) = h_interfaces h"
  by (simp add: History_append_def Let_def)

lemma append_steps:
  "steps (History_append h l) = steps h @
     [make_step h l (if steps h = [] then 0
                     else step_time (last (steps h))
                          + transition_cost (step_load (last (steps h))) l (h_interfaces h))
                    (if steps h = [] then 0
                     else transition_cost (step_load (last (steps h))) l (h_interfaces h))]"
  by (simp add: History_append_def Let_def)

lemma make_step_sel [simp]:
  "step_time (make_step h l t c) = t"
  "step_transition_cost (make_step h l t c) = c"
  "step_load (make_step h l t c) = l"
  by (simp_all add: make_step_def Let_def)

lemma appends_snoc: "appends h (ls @ [l]) = History_append (appends h ls) l"
  by (simp add: appends_def)

lemma appends_interfaces [simp]: "h_interfaces (appends h ls) = h_interfaces h"
  by (induction ls rule: rev_induct) (simp_all add: appends_def)

lemma appends_length: "length (steps (appends h ls)) = length (steps h) + length ls"
  by (induction ls rule: rev_induct) (simp_all add: appends_def append_steps)

lemma sorted_snoc_last:
  assumes "sorted (xs :: real list)" "xs \<noteq> [] \<Longrightarrow> last xs \<le> x"
  shows "sorted (xs @ [x])"
proof -
  have "\<forall>y \<in> set xs. y \<le> x"
  proof
    fix y assume y: "y \<in> set xs"
    then have ne: "xs \<noteq> []" by auto
    obtain i where i: "i < length xs" "xs ! i = y" using y by (auto simp: in_set_conv_nth)
    have "xs ! i \<le> xs ! (length xs - 1)"
      using assms(1) i(1) by (intro sorted_nth_mono) auto
    then show "y \<le> x" using assms(2)[OF ne] i(2) ne by (simp add: last_conv_nth)
  qed
  then show ?thesis using assms(1) by (simp add: sorted_append)
qed

lemma append_sorted:
  assumes "sorted (map step_time (steps h))"
  shows "sorted (map step_time (steps (History_append h l)))"
proof -
  have "sorted (map step_time (steps h) @
     [if steps h = [] then 0
      else step_time (last (steps h))
           + transition_cost (step_load (last (steps h))) l (h_interfaces h)])"
    using assms transition_cost_nonneg[of "step_load (last (steps h))" l "h_interfaces h"]
    by (intro sorted_snoc_last) (auto simp: last_map)
  then show ?thesis by (simp add: append_steps)
qed

lemma appends_sorted:
  "sorted (map step_time (steps h)) \<Longrightarrow> sorted (map step_time (steps (appends h ls)))"
  by (induction ls rule: rev_induct) (simp_all add: appends_snoc append_sorted, simp add: appends_def)

lemma appends_nth_old:
  "i < length (steps h) \<Longrightarrow> steps (appends h ls) ! i = steps h ! i"
proof (induction ls rule: rev_induct)
  case Nil then show ?case by (simp add: appends_def)
next
  case (snoc l ls)
  then show ?case
    by (simp add: appends_snoc append_steps nth_append appends_length)
qed

lemma appends_take:
  "k \<le> length ls \<Longrightarrow> i < length (steps h) + k \<Longrightarrow>
   steps (appends h ls) ! i = steps (appends h (take k ls)) ! i"
proof -
  assume k: "k \<le> length ls" and i: "i < length (steps h) + k"
  have "appends h ls = appends (appends h (take k ls)) (drop k ls)"
    by (metis appends_def fold_append append_take_drop_id comp_apply)
  then show ?thesis using i k
    by (simp add: appends_nth_old appends_length)
qed

lemma appends_empty_first:
  assumes "ls \<noteq> []"
  shows "step_time (steps (appends \<lparr>h_interfaces = itfs, steps = []\<rparr> ls) ! 0) = 0
       \<and> step_transition_cost (steps (appends \<lparr>h_interfaces = itfs, steps = []\<rparr> ls) ! 0) = 0
       \<and> step_load (steps (appends \<lparr>h_interfaces = itfs, steps = []\<rparr> ls) ! 0) = ls ! 0"
proof -
  let ?h = "\<lparr>h_interfaces = itfs, steps = []\<rparr>"
  have "steps (appends ?h ls) ! 0 = steps (appends ?h (take 1 ls)) ! 0"
    using assms by (intro appends_take) (auto simp: Suc_le_eq)
  moreover have "take 1 ls = [ls ! 0]" using assms by (cases ls) auto
  ultimately show ?thesis by (simp add: appends_def append_steps)
qed

lemma appends_step_load:
  "i < length ls \<Longrightarrow> step_load (steps (appends h ls) ! (length (steps h) + i)) = ls ! i"
proof (induction ls arbitrary: i rule: rev_induct)
  case Nil then show ?case by simp
next
  case (snoc l ls)
  show ?case
  proof (cases "i < length ls")
    case True
    then show ?thesis using snoc.IH[OF True]
      by (simp add: appends_snoc append_steps nth_append appends_length)
  next
    case False
    then have "i = length ls" using snoc.prems by simp
    then show ?thesis
      by (simp add: appends_snoc append_steps nth_append appends_length)
  qed
qed

lemma appends_next:
  assumes "Suc i < length ls"
  shows "step_time (steps (appends \<lparr>h_interfaces = itfs, steps = []\<rparr> ls) ! Suc i)
           = step_time (steps (appends \<lparr>h_interfaces = itfs, steps = []\<rparr> ls) ! i)
             + step_transition_cost (steps (appends \<lparr>h_interfaces = itfs, steps = []\<rparr> ls) ! Suc i)
       \<and> step_transition_cost (steps (appends \<lparr>h_interfaces = itfs, steps = []\<rparr> ls) ! Suc i)
           = transition_cost (ls ! i) (ls ! Suc i) itfs"
proof -
  let ?h = "\<lparr>h_interfaces = itfs, steps = []\<rparr>"
  let ?k = "Suc (Suc i)"
  let ?pre = "take (Suc i) ls"
  let ?hp = "appends ?h ?pre"
  have tk: "take ?k ls = ?pre @ [ls ! Suc i]"
    using assms by (simp add: take_Suc_conv_app_nth)
  have len: "length (steps ?hp) = Suc i" using assms by (simp add: appends_length)
  have ne: "steps ?hp \<noteq> []" using len by auto
  have lastp: "last (steps ?hp) = steps ?hp ! i" using len ne by (simp add: last_conv_nth)
  have e1: "steps (appends ?h ls) ! Suc i = steps (appends ?h (take ?k ls)) ! Suc i"
    using assms by (intro appends_take) auto
  have e0: "steps (appends ?h ls) ! i = steps ?hp ! i"
    using assms by (intro appends_take) auto
  have ld: "step_load (steps ?hp ! i) = ls ! i"
    using appends_step_load[of i ?pre ?h] assms by simp
  have "steps (appends ?h (take ?k ls)) ! Suc i =
        make_step ?hp (ls ! Suc i)
          (step_time (steps ?hp ! i) + transition_cost (ls ! i) (ls ! Suc i) itfs)
          (transition_cost (ls ! i) (ls ! Suc i) itfs)"
    using ne len by (simp add: tk appends_snoc append_steps nth_append lastp ld)
  then show ?thesis using e1 e0 by simp
qed

text \<open>
  Claim C3.  Appending load vectors to a History keeps the sequence of \<open>time\<close>
  values non-decreasing.  In a History built from the empty one, the first appended
  step has step cost 0 and time 0, and every later step's time is the previous time
  plus the transition cost from the previous load, which is not negative; so
  \<open>steps[i].time \<le> steps[i+1].time\<close> for all \<open>i\<close>.
\<close>

theorem history_time_monotone:
  "(sorted (map step_time (steps h)) \<longrightarrow> sorted (map step_time (steps (appends h ls))))
   \<and> sorted (map step_time (steps (appends \<lparr>h_interfaces = itfs, steps = []\<rparr> ls)))
   \<and> length (steps (appends \<lparr>h_interfaces = itfs, steps = []\<rparr> ls)) = length ls
   \<and> (ls \<noteq> [] \<longrightarrow>
        step_time (steps (appends \<lparr>h_interfaces = itfs, steps = []\<rparr> ls) ! 0) = 0
      \<and> step_transition_cost (steps (appends \<lparr>h_interfaces = itfs, steps = []\<rparr> ls) ! 0) = 0)
   \<and> (\<forall>i. Suc i < length ls \<longrightarrow>
        step_time (steps (appends \<lparr>h_interfaces = itfs, steps = []\<rparr> ls) ! Suc i)
          = step_time (steps (appends \<lparr>h_interfaces = itfs, steps = []\<rparr> ls) ! i)
            + step_transition_cost (steps (appends \<lparr>h_interfaces = itfs, steps = []\<rparr> ls) ! Suc i)
      \<and> step_transition_cost (steps (appends \<lparr>h_interfaces = itfs, steps = []\<rparr> ls) ! Suc i)
          = transition_cost (ls ! i) (ls ! Suc i) itfs
      \<and> 0 \<le> step_transition_cost (steps (appends \<lparr>h_interfaces = itfs, steps = []\<rparr> ls) ! Suc i)
      \<and> step_time (steps (appends \<lparr>h_interfaces = itfs, steps = []\<rparr> ls) ! i)
          \<le> step_time (steps (appends \<lparr>h_interfaces = itfs, steps = []\<rparr> ls) ! Suc i))"
proof (intro conjI impI allI)
  assume "sorted (map step_time (steps h))"
  then show "sorted (map step_time (steps (appends h ls)))" by (rule appends_sorted)
next
  show "sorted (map step_time (steps (appends \<lparr>h_interfaces = itfs, steps = []\<rparr> ls)))"
    by (rule appends_sorted) simp
  show "length (steps (appends \<lparr>h_interfaces = itfs, steps = []\<rparr> ls)) = length ls"
    by (simp add: appends_length)
next
  assume "ls \<noteq> []"
  then show "step_time (steps (appends \<lparr>h_interfaces = itfs, steps = []\<rparr> ls) ! 0) = 0"
    and "step_transition_cost (steps (appends \<lparr>h_interfaces = itfs, steps = []\<rparr> ls) ! 0) = 0"
    using appends_empty_first by blast+
next
  fix i assume i: "Suc i < length ls"
  note n = appends_next[OF i, of itfs]
  show "step_time (steps (appends \<lparr>h_interfaces = itfs, steps = []\<rparr> ls) ! Suc i)
          = step_time (steps (appends \<lparr>h_interfaces = itfs, steps = []\<rparr> ls) ! i)
            + step_transition_cost (steps (appends \<lparr>h_interfaces = itfs, steps = []\<rparr> ls) ! Suc i)"
    using n by blast
  show tc: "step_transition_cost (steps (appends \<lparr>h_interfaces = itfs, steps = []\<rparr> ls) ! Suc i)
          = transition_cost (ls ! i) (ls ! Suc i) itfs"
    using n by blast
  show nn: "0 \<le> step_transition_cost (steps (appends \<lparr>h_interfaces = itfs, steps = []\<rparr> ls) ! Suc i)"
    using tc transition_cost_nonneg by simp
  show "step_time (steps (appends \<lparr>h_interfaces = itfs, steps = []\<rparr> ls) ! i)
          \<le> step_time (steps (appends \<lparr>h_interfaces = itfs, steps = []\<rparr> ls) ! Suc i)"
    using n nn by linarith
qed

theorem history_time_monotone_witness:
  "sorted (map step_time (steps (appends \<lparr>h_interfaces = [I1], steps = []\<rparr>
                                   [[(''I1'', 0)], [(''I1'', 2)], [(''I1'', 1)]])))
   \<and> map step_time (steps (appends \<lparr>h_interfaces = [I1], steps = []\<rparr>
                                   [[(''I1'', 0)], [(''I1'', 2)], [(''I1'', 1)]])) = [0, 5/2, 4]
   \<and> map step_transition_cost (steps (appends \<lparr>h_interfaces = [I1], steps = []\<rparr>
                                   [[(''I1'', 0)], [(''I1'', 2)], [(''I1'', 1)]])) = [0, 5/2, 3/2]"
  using history_time_monotone[of "\<lparr>h_interfaces = [I1], steps = []\<rparr>"
          "[[(''I1'', 0)], [(''I1'', 2)], [(''I1'', 1)]]" "[I1]"]
  by (simp add: appends_def History_append_def make_step_def min_headroom_def transition_cost_def
        cost_def headroom_def getitem_def dict_get_def I1_def Let_def)

text \<open>
  Evaluation of the rounding: the binade of a number from two bounds, the nearest
  integer from a distance under one half, and the value of \<^const>\<open>fl64\<close> from both.
\<close>

lemma binade_eqI:
  assumes "2 powi e \<le> \<bar>x\<bar>" and "\<bar>x\<bar> < 2 powi (e + 1)"
  shows "binade x = e"
proof -
  have pos: "0 < \<bar>x\<bar>"
    using assms(1) by (smt (verit) zero_less_power_int)
  have "2 powr (of_int e) \<le> \<bar>x\<bar>"
    using assms(1) by (simp add: powr_real_of_int')
  then have lo: "of_int e \<le> log 2 \<bar>x\<bar>"
    using pos by (simp add: le_log_iff)
  have "\<bar>x\<bar> < 2 powr (of_int (e + 1))"
    using assms(2) powr_real_of_int'[of 2 "e + 1"] by simp
  then have hi: "log 2 \<bar>x\<bar> < of_int e + 1"
    using pos by (simp add: log_less_iff)
  show ?thesis
    unfolding binade_def using lo hi by (simp add: floor_unique)
qed

lemma round_even_near:
  assumes "\<bar>y - of_int m\<bar> < 1 / 2"
  shows "round_even y = m"
proof (cases "of_int m \<le> y")
  case True
  then have "\<lfloor>y\<rfloor> = m" using assms by (intro floor_unique) auto
  then show ?thesis using assms True by (simp add: round_even_def Let_def)
next
  case False
  then have "\<lfloor>y\<rfloor> = m - 1" using assms by (intro floor_unique) auto
  then show ?thesis using assms False by (simp add: round_even_def Let_def)
qed

lemma round_even_tie:
  assumes "y = of_int m + 1 / 2"
  shows "round_even y = (if even m then m else m + 1)"
proof -
  have "\<lfloor>y\<rfloor> = m" using assms by (intro floor_unique) auto
  then show ?thesis using assms by (simp add: round_even_def Let_def)
qed

lemma round_even_bound:
  assumes "\<bar>y\<bar> < of_int K"
  shows "\<bar>round_even y\<bar> \<le> K"
proof -
  have "- K \<le> \<lfloor>y\<rfloor>" using assms by (simp add: le_floor_iff abs_less_iff)
  moreover have "\<lfloor>y\<rfloor> < K" using assms by (simp add: floor_less_iff abs_less_iff)
  moreover have "round_even y = \<lfloor>y\<rfloor> \<or> round_even y = \<lfloor>y\<rfloor> + 1"
    by (simp add: round_even_def Let_def)
  ultimately show ?thesis by auto
qed

lemma fl64_eval:
  assumes lo: "2 powi e \<le> \<bar>x\<bar>" and hi: "\<bar>x\<bar> < 2 powi (e + 1)"
    and e: "- 1022 \<le> e" "e < 1023"
    and m: "round_even (x / 2 powi (e - 52)) = m"
  shows "fl64 x = Fin (of_int m * 2 powi (e - 52))"
proof -
  let ?q = "(2::real) powi (e - 52)"
  have q: "0 < ?q" by simp
  have b: "binade x = e" using lo hi by (rule binade_eqI)
  have x0: "x \<noteq> 0" using lo by (smt (verit) zero_less_power_int)
  have "\<bar>x / ?q\<bar> < 2 powi (e + 1) / ?q"
    using hi q by (simp add: divide_strict_right_mono)
  also have "2 powi (e + 1) / ?q = (2::real) powi 53"
    by (simp add: power_int_diff[symmetric])
  finally have xq: "\<bar>x / ?q\<bar> < 2 ^ 53" by simp
  have "\<bar>round_even (x / ?q)\<bar> \<le> 2 ^ 53"
    using round_even_bound[of "x / ?q" "2 ^ 53"] xq by simp
  then have "\<bar>of_int m :: real\<bar> \<le> of_int (2 ^ 53)"
    unfolding m by (metis of_int_abs of_int_le_iff)
  then have "\<bar>of_int m :: real\<bar> \<le> 2 ^ 53" by simp
  then have "\<bar>of_int m * ?q\<bar> \<le> 2 ^ 53 * ?q"
    using q by (simp add: abs_mult mult_right_mono)
  also have "2 ^ 53 * ?q = 2 powi (e + 1)"
    using power_int_add[of "2::real" 53 "e - 52"] by (simp add: add.commute)
  also have "\<dots> \<le> 2 powi 1023"
    using e by (intro power_int_increasing) auto
  also have "\<dots> < (2::real) powi 1024"
    by (intro power_int_strict_increasing) auto
  finally have r: "\<bar>of_int m * ?q\<bar> < 2 powi 1024" .
  have mx: "max e (- 1022) = e" using e by simp
  show ?thesis
    unfolding fl64_def Let_def b mx m using x0 r by (auto simp: abs_less_iff)
qed

lemma round_even_of_int: "round_even (of_int m) = m"
  by (rule round_even_near) simp

lemma fl64_overflow:
  assumes "2 powi 1024 \<le> x"
  shows "fl64 x = PInf"
proof -
  have x0: "0 < x" using assms by (smt (verit) zero_less_power_int)
  define e where "e = binade x"
  have le: "of_int e \<le> log 2 x"
    unfolding e_def binade_def using x0 by simp
  then have "2 powr (of_int e) \<le> x"
    using x0 by (simp add: le_log_iff)
  then have lo: "2 powi e \<le> x" by (simp add: powr_real_of_int')
  have "2 powr (of_int (1024::int)) \<le> x"
    using assms powr_real_of_int'[of 2 1024] by simp
  then have "of_int (1024::int) \<le> log 2 x"
    using x0 by (simp add: le_log_iff)
  then have e: "1024 \<le> e"
    unfolding e_def binade_def using x0 by (simp add: le_floor_iff)
  let ?q = "(2::real) powi (e - 52)"
  have q: "0 < ?q" by simp
  have "2 powi e / ?q \<le> x / ?q"
    using lo q by (simp add: divide_right_mono)
  moreover have "2 powi e / ?q = (2::real) powi 52"
    by (simp add: power_int_diff[symmetric])
  ultimately have "of_int (2 ^ 52) \<le> x / ?q" by simp
  then have "2 ^ 52 \<le> \<lfloor>x / ?q\<rfloor>" by (simp only: le_floor_iff)
  moreover have "\<lfloor>x / ?q\<rfloor> \<le> round_even (x / ?q)"
    by (simp add: round_even_def Let_def)
  ultimately have "2 ^ 52 \<le> round_even (x / ?q)" by linarith
  then have "(of_int (2 ^ 52) :: real) \<le> of_int (round_even (x / ?q))"
    by (simp only: of_int_le_iff)
  then have "2 ^ 52 * ?q \<le> of_int (round_even (x / ?q)) * ?q"
    using q by (simp add: mult_right_mono)
  moreover have "2 ^ 52 * ?q = 2 powi e"
    using power_int_add[of "2::real" 52 "e - 52"] by simp
  moreover have "(2::real) powi 1024 \<le> 2 powi e"
    using e by (intro power_int_increasing) auto
  ultimately have r: "2 powi 1024 \<le> of_int (round_even (x / ?q)) * ?q" by linarith
  have mx: "max (binade x) (- 1022) = e" using e by (simp add: e_def)
  show ?thesis
    unfolding fl64_def Let_def mx using x0 r by simp
qed

text \<open>The decimal literals denote the fields of the example interfaces.\<close>

lemma literal_4_1: "fl64 (41 / 10) = Fin (capacity I_frac)"
proof -
  have "round_even ((41 / 10) / 2 powi (2 - 52)) = 4616189618054758"
    by (rule round_even_near) (simp add: power_int_minus)
  from fl64_eval[where e = 2, OF _ _ _ _ this]
  show ?thesis by (simp add: I_frac_def power_int_minus)
qed

lemma literal_0_01: "fl64 (1 / 100) = Fin (epsilon I_frac)"
proof -
  have "round_even ((1 / 100) / 2 powi (- 7 - 52)) = 5764607523034235"
    by (rule round_even_near) (simp add: power_int_minus)
  from fl64_eval[where e = "- 7", OF _ _ _ _ this]
  show ?thesis by (simp add: I_frac_def power_int_minus)
qed

lemma literal_1e_12: "fl64 (1 / 10 ^ 12) = Fin float_1e_12"
proof -
  have "round_even ((1 / 10 ^ 12) / 2 powi (- 40 - 52)) = 4951760157141521"
    by (rule round_even_near) (simp add: power_int_minus)
  from fl64_eval[where e = "- 40", OF _ _ _ _ this]
  show ?thesis by (simp add: float_1e_12_def power_int_minus)
qed

lemma max_n_I_frac: "max_n I_frac = Inr 409"
proof -
  let ?x = "capacity I_frac / epsilon I_frac"
  have "round_even (?x / 2 powi (8 - 52)) = 7212796278210559"
    by (rule round_even_near) (simp add: I_frac_def power_int_minus)
  from fl64_eval[where e = 8 and x = ?x, OF _ _ _ _ this]
  have "fl64 ?x = Fin (7212796278210559 / 2 ^ 44)"
    by (simp add: I_frac_def power_int_minus)
  then show ?thesis
    by (simp add: max_n_def float_1e_12_def bind_err_def py_int_def) (simp add: I_frac_def)
qed

lemma fl64_exact:
  assumes "2 powi e \<le> \<bar>x\<bar>" and "\<bar>x\<bar> < 2 powi (e + 1)"
    and "- 1022 \<le> e" "e < 1023"
    and "x / 2 powi (e - 52) = of_int m"
  shows "fl64 x = Fin x"
proof -
  have "round_even (x / 2 powi (e - 52)) = m"
    unfolding assms(5) by (rule round_even_of_int)
  from fl64_eval[OF assms(1-4) this]
  have "fl64 x = Fin (x / 2 powi (e - 52) * 2 powi (e - 52))"
    unfolding assms(5) .
  then show ?thesis by simp
qed

lemma int_to_float_410: "int_to_float 410 = Inr (Fin 410)"
proof -
  have "fl64 410 = Fin 410"
    by (rule fl64_exact[where e = 8 and m = "410 * 2 ^ 44"]) (simp_all add: power_int_minus)
  then show ?thesis by (simp add: int_to_float_def)
qed

lemma int_to_float_409: "int_to_float 409 = Inr (Fin 409)"
proof -
  have "fl64 409 = Fin 409"
    by (rule fl64_exact[where e = 8 and m = "409 * 2 ^ 44"]) (simp_all add: power_int_minus)
  then show ?thesis by (simp add: int_to_float_def)
qed

lemma cost_float_I_frac: "cost_float I_frac 410 = Inr (Fin (capacity I_frac))"
proof -
  let ?x = "epsilon I_frac * 410"
  have "round_even (?x / 2 powi (2 - 52)) = 4616189618054758"
    by (rule round_even_near) (simp add: I_frac_def power_int_minus)
  from fl64_eval[where e = 2 and x = ?x, OF _ _ _ _ this]
  have "fl64 ?x = Fin (capacity I_frac)"
    by (simp add: I_frac_def power_int_minus)
  moreover have "fl64 (capacity I_frac) = Fin (capacity I_frac)"
    by (rule fl64_exact[where e = 2 and m = 4616189618054758])
      (simp_all add: I_frac_def power_int_minus)
  moreover have "eta I_frac = 0" by (simp add: I_frac_def)
  moreover have "fl64 0 = Fin 0" by (simp add: fl64_def)
  ultimately show ?thesis
    by (simp add: cost_float_def bind_err_def int_to_float_410 int_to_float_409)
qed

lemma max_n_I_big: "max_n I_big = Inr 2251799813685249"
proof -
  let ?x = "capacity I_big / epsilon I_big"
  have "round_even (?x / 2 powi (51 - 52)) = 4503599627370498"
    by (rule round_even_near) (simp add: I_big_def power_int_minus)
  from fl64_eval[where e = 51 and x = ?x, OF _ _ _ _ this]
  have "fl64 ?x = Fin 2251799813685249"
    by (simp add: I_big_def power_int_minus)
  then show ?thesis
    by (simp add: max_n_def float_1e_12_def bind_err_def py_int_def) (simp add: I_big_def)
qed

lemma cost_I_big: "cost I_big 2251799813685249 = 11258999068426245"
  by (simp add: cost_def I_big_def)

lemma max_n_I_huge: "max_n I_huge = Inl OverflowError"
proof -
  have "fl64 (capacity I_huge / epsilon I_huge) = PInf"
    by (rule fl64_overflow) (simp add: I_huge_def)
  then show ?thesis
    by (simp add: max_n_def float_1e_12_def bind_err_def) (simp add: I_huge_def)
qed

lemma sqrt_137_16:
  "fl64 (sqrt (137 / 16)) = Fin (205911258423439 / 2 ^ 46)"
proof -
  let ?s = "sqrt (137 / 16)"
  have lo: "13178320539100095 / 2 ^ 52 < ?s"
    by (rule real_less_rsqrt) (simp add: power2_eq_square)
  have hi: "?s < 13178320539100097 / 2 ^ 52"
    by (rule real_less_lsqrt) (simp_all add: power2_eq_square)
  have "\<bar>?s * 2 ^ 51 - 6589160269550048\<bar> < 1 / 2"
    unfolding abs_less_iff using lo hi by (simp add: field_simps)
  then have "round_even (?s / 2 powi (1 - 52)) = 6589160269550048"
    by (intro round_even_near) (simp add: power_int_minus)
  moreover have "2 powi 1 \<le> \<bar>?s\<bar>" "\<bar>?s\<bar> < 2 powi (1 + 1)"
    using lo hi by simp_all
  ultimately have "fl64 ?s = Fin (of_int 6589160269550048 * 2 powi (1 - 52))"
    by (intro fl64_eval) simp_all
  then show ?thesis by (simp add: power_int_minus)
qed

lemma max_n_I1: "max_n I1 = Inr 4"
proof -
  have a: "fl64 (1 / 4) = Fin (1 / 4)"
    by (rule fl64_exact[where e = "- 2" and m = "2 ^ 52"]) (simp_all add: power_int_minus)
  have h: "fl64 (1 / 2) = Fin (1 / 2)"
    by (rule fl64_exact[where e = "- 1" and m = "2 ^ 52"]) (simp_all add: power_int_minus)
  have b: "fl64 (3 / 4) = Fin (3 / 4)"
    by (rule fl64_exact[where e = "- 1" and m = "3 * 2 ^ 51"]) (simp_all add: power_int_minus)
  have bb: "fl64 (9 / 16) = Fin (9 / 16)"
    by (rule fl64_exact[where e = "- 1" and m = "9 * 2 ^ 49"]) (simp_all add: power_int_minus)
  have one: "fl64 1 = Fin 1"
    by (rule fl64_exact[where e = 0 and m = "2 ^ 52"]) (simp_all add: power_int_minus)
  have c: "fl64 (- 8) = Fin (- 8)"
    by (rule fl64_exact[where e = 3 and m = "- (2 ^ 52)"]) (simp_all add: power_int_minus)
  have disc: "fl64 (137 / 16) = Fin (137 / 16)"
    by (rule fl64_exact[where e = 3 and m = "137 * 2 ^ 45"]) (simp_all add: power_int_minus)
  have num: "fl64 (153134700290191 / 2 ^ 46) = Fin (153134700290191 / 2 ^ 46)"
    by (rule fl64_exact[where e = 1 and m = "153134700290191 * 2 ^ 5"])
      (simp_all add: power_int_minus)
  have quot: "fl64 (153134700290191 / 2 ^ 45) = Fin (153134700290191 / 2 ^ 45)"
    by (rule fl64_exact[where e = 2 and m = "153134700290191 * 2 ^ 5"])
      (simp_all add: power_int_minus)
  show ?thesis
    by (simp add: max_n_def float_1e_12_def I1_def bind_err_def fsub_def a h b bb one c disc
        sqrt_137_16[simplified] num[simplified] quot[simplified] py_int_def)
qed

lemma max_n_V4_I1: "max_n_V4 I1 = Inr 4"
proof -
  have a: "fl64 (1 / 4) = Fin (1 / 4)"
    by (rule fl64_exact[where e = "- 2" and m = "2 ^ 52"]) (simp_all add: power_int_minus)
  have h: "fl64 (1 / 2) = Fin (1 / 2)"
    by (rule fl64_exact[where e = "- 1" and m = "2 ^ 52"]) (simp_all add: power_int_minus)
  have b: "fl64 (3 / 4) = Fin (3 / 4)"
    by (rule fl64_exact[where e = "- 1" and m = "3 * 2 ^ 51"]) (simp_all add: power_int_minus)
  have bb: "fl64 (9 / 16) = Fin (9 / 16)"
    by (rule fl64_exact[where e = "- 1" and m = "9 * 2 ^ 49"]) (simp_all add: power_int_minus)
  have one: "fl64 1 = Fin 1"
    by (rule fl64_exact[where e = 0 and m = "2 ^ 52"]) (simp_all add: power_int_minus)
  have c: "fl64 (- 8) = Fin (- 8)"
    by (rule fl64_exact[where e = 3 and m = "- (2 ^ 52)"]) (simp_all add: power_int_minus)
  have disc: "fl64 (137 / 16) = Fin (137 / 16)"
    by (rule fl64_exact[where e = 3 and m = "137 * 2 ^ 45"]) (simp_all add: power_int_minus)
  have num: "fl64 (153134700290191 / 2 ^ 46) = Fin (153134700290191 / 2 ^ 46)"
    by (rule fl64_exact[where e = 1 and m = "153134700290191 * 2 ^ 5"])
      (simp_all add: power_int_minus)
  have quot: "fl64 (153134700290191 / 2 ^ 45) = Fin (153134700290191 / 2 ^ 45)"
    by (rule fl64_exact[where e = 2 and m = "153134700290191 * 2 ^ 5"])
      (simp_all add: power_int_minus)
  show ?thesis
    by (simp add: max_n_V4_def float_1e_12_def MAX_LOAD_PER_INTERFACE_def I1_def bind_err_def fsub_def a h b bb one c disc
        sqrt_137_16[simplified] num[simplified] quot[simplified] py_int_def)
qed

lemma literal_0_4: "fl64 (4 / 10) = Fin (eta I_half)"
proof -
  have "round_even ((4 / 10) / 2 powi (- 2 - 52)) = 7205759403792794"
    by (rule round_even_near) (simp add: power_int_minus)
  from fl64_eval[where e = "- 2", OF _ _ _ _ this]
  show ?thesis by (simp add: I_half_def power_int_minus)
qed

lemma sqrt_disc_I_half:
  "fl64 (sqrt (2206763817411543 / 2 ^ 52)) = Fin (3152519739159347 / 2 ^ 52)"
proof -
  let ?s = "sqrt (2206763817411543 / 2 ^ 52)"
  have lo: "12610078956637387 / 2 ^ 54 < ?s"
    by (rule real_less_rsqrt) (simp add: power2_eq_square)
  have hi: "?s < 12610078956637389 / 2 ^ 54"
    by (rule real_less_lsqrt) (simp_all add: power2_eq_square)
  have "\<bar>?s * 2 ^ 53 - 6305039478318694\<bar> < 1 / 2"
    unfolding abs_less_iff using lo hi by (simp add: field_simps)
  then have "round_even (?s / 2 powi (- 1 - 52)) = 6305039478318694"
    by (intro round_even_near) (simp add: power_int_minus)
  moreover have "2 powi (- 1) \<le> \<bar>?s\<bar>" "\<bar>?s\<bar> < 2 powi (- 1 + 1)"
    using lo hi by (simp_all add: power_int_minus)
  ultimately have "fl64 ?s = Fin (of_int 6305039478318694 * 2 powi (- 1 - 52))"
    by (intro fl64_eval) simp_all
  then show ?thesis by (simp add: power_int_minus)
qed

lemma I_half_steps:
  shows "fl64 (3602879701896397 / 2 ^ 54) = Fin (3602879701896397 / 2 ^ 54)"
    and "fl64 (5404319552844595 / 2 ^ 54) = Fin (5404319552844595 / 2 ^ 54)"
    and "fl64 (5404319552844595 / 2 ^ 54 * (5404319552844595 / 2 ^ 54))
          = Fin (3242591731706757 / 2 ^ 55)"
    and "fl64 (3602879701896397 / 2 ^ 52) = Fin (3602879701896397 / 2 ^ 52)"
    and "fl64 (- (3602879701896397 / 2 ^ 53)) = Fin (- (3602879701896397 / 2 ^ 53))"
    and "fl64 (17654110539292345 / 2 ^ 55) = Fin (2206763817411543 / 2 ^ 52)"
    and "fl64 (7205759403792793 / 2 ^ 54) = Fin (7205759403792793 / 2 ^ 54)"
    and "fl64 (3602879701896397 / 2 ^ 53) = Fin (3602879701896397 / 2 ^ 53)"
    and "fl64 (7205759403792793 / 7205759403792794) = Fin (9007199254740991 / 2 ^ 53)"
proof -
  show "fl64 (3602879701896397 / 2 ^ 54) = Fin (3602879701896397 / 2 ^ 54)"
    by (rule fl64_exact[where e = "- 3" and m = 7205759403792794])
      (simp_all add: power_int_minus)
  show "fl64 (5404319552844595 / 2 ^ 54) = Fin (5404319552844595 / 2 ^ 54)"
    by (rule fl64_exact[where e = "- 2" and m = 5404319552844595])
      (simp_all add: power_int_minus)
  have "round_even ((5404319552844595 / 2 ^ 54 * (5404319552844595 / 2 ^ 54))
          / 2 powi (- 4 - 52)) = 6485183463413514"
    by (rule round_even_near) (simp add: power_int_minus)
  from fl64_eval[where e = "- 4", OF _ _ _ _ this]
  show "fl64 (5404319552844595 / 2 ^ 54 * (5404319552844595 / 2 ^ 54))
      = Fin (3242591731706757 / 2 ^ 55)"
    by (simp add: power_int_minus)
  show "fl64 (3602879701896397 / 2 ^ 52) = Fin (3602879701896397 / 2 ^ 52)"
    by (rule fl64_exact[where e = "- 1" and m = 7205759403792794])
      (simp_all add: power_int_minus)
  show "fl64 (- (3602879701896397 / 2 ^ 53)) = Fin (- (3602879701896397 / 2 ^ 53))"
    by (rule fl64_exact[where e = "- 2" and m = "- 7205759403792794"])
      (simp_all add: power_int_minus)
  have "round_even ((17654110539292345 / 2 ^ 55) / 2 powi (- 2 - 52))
      = (if even (8827055269646172::int) then 8827055269646172 else 8827055269646172 + 1)"
    by (rule round_even_tie) (simp add: power_int_minus)
  then have "round_even ((17654110539292345 / 2 ^ 55) / 2 powi (- 2 - 52)) = 8827055269646172"
    by simp
  from fl64_eval[where e = "- 2", OF _ _ _ _ this]
  show "fl64 (17654110539292345 / 2 ^ 55) = Fin (2206763817411543 / 2 ^ 52)"
    by (simp add: power_int_minus)
  show "fl64 (7205759403792793 / 2 ^ 54) = Fin (7205759403792793 / 2 ^ 54)"
    by (rule fl64_exact[where e = "- 2" and m = 7205759403792793])
      (simp_all add: power_int_minus)
  show "fl64 (3602879701896397 / 2 ^ 53) = Fin (3602879701896397 / 2 ^ 53)"
    by (rule fl64_exact[where e = "- 2" and m = 7205759403792794])
      (simp_all add: power_int_minus)
  have "round_even ((7205759403792793 / 7205759403792794) / 2 powi (- 1 - 52))
      = 9007199254740991"
    by (rule round_even_near) (simp add: power_int_minus)
  from fl64_eval[where e = "- 1", OF _ _ _ _ this]
  show "fl64 (7205759403792793 / 7205759403792794) = Fin (9007199254740991 / 2 ^ 53)"
    by (simp add: power_int_minus)
qed

lemma max_n_I_half: "max_n I_half = Inr 0"
  by (simp add: max_n_def float_1e_12_def I_half_def bind_err_def fsub_def I_half_steps[simplified]
      sqrt_disc_I_half[simplified] py_int_def)

lemma max_n_V4_I_half: "max_n_V4 I_half = Inr 0"
  by (simp add: max_n_V4_def float_1e_12_def I_half_def bind_err_def fsub_def I_half_steps[simplified]
      sqrt_disc_I_half[simplified] py_int_def MAX_LOAD_PER_INTERFACE_def)

lemma fl64_1: "fl64 1 = Fin 1"
  by (rule fl64_exact[where e = 0 and m = "2 ^ 52"]) (simp_all add: power_int_minus)

lemma fl64_half: "fl64 (1 / 2) = Fin (1 / 2)"
  by (rule fl64_exact[where e = "- 1" and m = "2 ^ 52"]) (simp_all add: power_int_minus)

lemma fl64_0: "fl64 0 = Fin 0"
  by (simp add: fl64_def)

lemma cost_float_I_half: "cost_float I_half 1 = Inr (Fin (capacity I_half))"
  by (simp add: cost_float_def I_half_def bind_err_def int_to_float_def fl64_0 fl64_1 fl64_half
      I_half_steps(8)[simplified])

lemma cost_I_half: "cost I_half 1 = capacity I_half \<and> cost I_half 2 > capacity I_half"
  by (simp add: cost_def I_half_def)

lemma max_n_V4_I_huge: "max_n_V4 I_huge = Inl OverflowError"
proof -
  have "fl64 (capacity I_huge / epsilon I_huge) = PInf"
    by (rule fl64_overflow) (simp add: I_huge_def)
  then show ?thesis
    by (simp add: max_n_V4_def float_1e_12_def bind_err_def) (simp add: I_huge_def)
qed

text \<open>
  On the concrete scenario of the specification, the interface
  \<open>{capacity = 8, linear = 1, quadratic = 0.5}\<close>, both variants of max_n return 4, with
  \<open>cost(4) = 7 \<le> 8\<close> and \<open>cost(5) > 8\<close>.
\<close>

lemma max_n_scenario:
  "max_n I1 = Inr 4 \<and> max_n_V4 I1 = Inr 4 \<and> cost I1 4 = 7 \<and> cost I1 5 > 8"
  using max_n_I1 max_n_V4_I1 by (simp add: cost_def I1_def)

text \<open>
  In the linear branch the quotient is rounded before it is truncated.  At capacity
  4.1 and linear coefficient 0.01 max_n returns 409 although \<open>cost(410)\<close>, as the code
  computes it, equals the capacity; at capacity 11258999068426244 and linear coefficient
  5 it returns 2251799813685249, whose exact cost exceeds the capacity.
\<close>

lemma max_n_linear_rounding:
  "max_n I_frac = Inr 409 \<and> cost_float I_frac 410 = Inr (Fin (capacity I_frac))
   \<and> max_n I_big = Inr 2251799813685249
   \<and> cost I_big 2251799813685249 > capacity I_big"
  using max_n_I_frac cost_float_I_frac max_n_I_big cost_I_big by (simp add: I_big_def)

text \<open>
  Claim C6 fails on the code.  The docstring of max_n promises the maximum \<open>n\<close> before
  \<open>E(n) > C\<close>.  For the interface with capacity 0.5, linear coefficient 0.5 and
  quadratic coefficient 0.4 the cost of one unit is exactly the capacity, in exact
  arithmetic and as the code computes it, and the cost of two units exceeds it, so the largest feasible load is 1; the quotient
  of the quadratic formula rounds to \<open>1 - 2^(-53)\<close>, which \<^verbatim>\<open>int\<close> truncates, and
  both variants of max_n return 0.  For the interface with capacity \<open>2^1000\<close>, linear
  coefficient \<open>2^(-1000)\<close> and no quadratic coefficient the quotient overflows to
  infinity and both variants raise \<^verbatim>\<open>OverflowError\<close> instead of returning.
\<close>

theorem max_n_not_largest_feasible:
  "0 < epsilon I_half \<and> 0 < eta I_half
   \<and> max_n I_half = Inr 0 \<and> max_n_V4 I_half = Inr 0
   \<and> cost I_half 1 = capacity I_half \<and> cost I_half 2 > capacity I_half
   \<and> cost_float I_half 1 = Inr (Fin (capacity I_half))
   \<and> 0 < epsilon I_huge \<and> eta I_huge = 0
   \<and> max_n I_huge = Inl OverflowError \<and> max_n_V4 I_huge = Inl OverflowError"
  using max_n_I_half max_n_V4_I_half cost_I_half cost_float_I_half max_n_I_huge
    max_n_V4_I_huge
  by (simp add: I_half_def I_huge_def)





declare dfs.simps [simp del]
















lemma dict_get_update:
  "dict_get (AList.update k x d) k' dflt = (if k' = k then x else dict_get d k' dflt)"
  by (simp add: dict_get_def update_conv')

lemma getitem_update:
  "getitem (AList.update k x d) k' = (if k' = k then x else getitem d k')"
  by (simp add: getitem_def dict_get_update)

lemma getitem_Nil [simp]: "getitem [] nm = 0"
  by (simp add: getitem_def dict_get_def)

lemma getitem_add_contrib_gen:
  "getitem (add_contrib d c k) nm =
     getitem d nm + (\<Sum>item \<leftarrow> c. if fst item = nm then snd item * k else 0)"
proof (induction c arbitrary: d)
  case Nil then show ?case by (simp add: add_contrib_def)
next
  case (Cons a c)
  have "add_contrib d (a # c) k =
        add_contrib (AList.update (fst a) (dict_get d (fst a) 0 + snd a * k) d) c k"
    by (simp add: add_contrib_def)
  then show ?case using Cons.IH by (simp add: getitem_update) (simp add: getitem_def)
qed

lemma getitem_sub_contrib_gen:
  "getitem (sub_contrib d c k) nm =
     getitem d nm - (\<Sum>item \<leftarrow> c. if fst item = nm then snd item * k else 0)"
proof (induction c arbitrary: d)
  case Nil then show ?case by (simp add: sub_contrib_def)
next
  case (Cons a c)
  have "sub_contrib d (a # c) k =
        sub_contrib (AList.update (fst a) (dict_get d (fst a) 0 - snd a * k) d) c k"
    by (simp add: sub_contrib_def)
  then show ?case using Cons.IH by (simp add: getitem_update) (simp add: getitem_def)
qed

lemma sum_items_distinct:
  "distinct (map fst c) \<Longrightarrow>
   (\<Sum>item \<leftarrow> c. if fst item = nm then snd item * k else 0) = getitem c nm * (k::int)"
proof (induction c)
  case Nil then show ?case by simp
next
  case (Cons a c)
  show ?case
  proof (cases "fst a = nm")
    case True
    then have "nm \<notin> fst ` set c" using Cons.prems by auto
    then have "map_of c nm = None" by (simp add: map_of_eq_None_iff)
    then have "getitem c nm = 0" by (simp add: getitem_def dict_get_def)
    moreover have "getitem (a # c) nm = snd a"
      using True by (cases a) (simp add: getitem_def dict_get_def)
    ultimately show ?thesis using Cons True by simp
  next
    case False
    then have "getitem (a # c) nm = getitem c nm"
      by (cases a) (simp add: getitem_def dict_get_def)
    then show ?thesis using Cons False by simp
  qed
qed

lemma count_fold_getitem:
  "getitem (fold (\<lambda>e loads. AList.update (name (interface e))
                    (dict_get loads (name (interface e)) 0 + 1) loads) es acc) nm
   = getitem acc nm + int (length (filter (\<lambda>e. name (interface e) = nm) es))"
proof (induction es arbitrary: acc)
  case Nil then show ?case by simp
next
  case (Cons e es)
  show ?case by (simp add: Cons.IH getitem_update) (simp add: getitem_def)
qed

lemma count_fold_distinct:
  "distinct (map fst acc) \<Longrightarrow>
   distinct (map fst (fold (\<lambda>e loads. AList.update (name (interface e))
                    (dict_get loads (name (interface e)) 0 + 1) loads) es acc))"
  by (induction es arbitrary: acc) (simp_all add: distinct_update)

lemma getitem_load_contribution: "getitem (load_contribution p) nm = uses p nm"
  by (simp add: load_contribution_def uses_def count_fold_getitem)

lemma distinct_load_contribution: "distinct (map fst (load_contribution p))"
  by (simp add: load_contribution_def count_fold_distinct)

lemma getitem_add_contrib_path:
  "getitem (add_contrib d (load_contribution p) k) nm = getitem d nm + uses p nm * k"
  by (simp add: getitem_add_contrib_gen sum_items_distinct distinct_load_contribution
        getitem_load_contribution)

lemma getitem_sub_contrib_path:
  "getitem (sub_contrib d (load_contribution p) k) nm = getitem d nm - uses p nm * k"
  by (simp add: getitem_sub_contrib_gen sum_items_distinct distinct_load_contribution
        getitem_load_contribution)

lemma getitem_hyp_load:
  "getitem (hyp_load load ob p) nm = getitem load nm + uses p nm * demand ob"
  by (simp add: hyp_load_def getitem_add_contrib_path)

lemma first_cheapest_new:
  assumes "adm q" and "\<And>j. j < length ps \<Longrightarrow> adm (ps ! j) \<Longrightarrow> c q < c (ps ! j)"
  shows "first_cheapest adm c (ps @ [q]) (length ps)"
  unfolding first_cheapest_def
proof (intro conjI allI impI)
  show "length ps < length (ps @ [q])" by simp
  show "adm ((ps @ [q]) ! length ps)" using assms(1) by simp
next
  fix j assume j: "j < length (ps @ [q])" "adm ((ps @ [q]) ! j)"
  show "c ((ps @ [q]) ! length ps) \<le> c ((ps @ [q]) ! j)"
  proof (cases "j < length ps")
    case True
    then have "c q < c (ps ! j)" using assms(2) j(2) by (simp add: nth_append)
    then show ?thesis using True by (simp add: nth_append)
  next
    case False
    then have "j = length ps" using j(1) by simp
    then show ?thesis by simp
  qed
next
  fix j assume j: "j < length ps" "adm ((ps @ [q]) ! j)"
  then have "c q < c (ps ! j)" using assms(2) by (simp add: nth_append)
  then show "c ((ps @ [q]) ! length ps) < c ((ps @ [q]) ! j)" using j(1) by (simp add: nth_append)
qed

lemma first_cheapest_keep:
  assumes "first_cheapest adm c ps i" and "adm q \<Longrightarrow> c (ps ! i) \<le> c q"
  shows "first_cheapest adm c (ps @ [q]) i"
proof -
  have il: "i < length ps" and ai: "adm (ps ! i)"
    and mn: "\<And>j. j < length ps \<Longrightarrow> adm (ps ! j) \<Longrightarrow> c (ps ! i) \<le> c (ps ! j)"
    and st: "\<And>j. j < i \<Longrightarrow> adm (ps ! j) \<Longrightarrow> c (ps ! i) < c (ps ! j)"
    using assms(1) unfolding first_cheapest_def by blast+
  show ?thesis
    unfolding first_cheapest_def
  proof (intro conjI allI impI)
    show "i < length (ps @ [q])" using il by simp
    show "adm ((ps @ [q]) ! i)" using il ai by (simp add: nth_append)
  next
    fix j assume j: "j < length (ps @ [q])" "adm ((ps @ [q]) ! j)"
    show "c ((ps @ [q]) ! i) \<le> c ((ps @ [q]) ! j)"
    proof (cases "j < length ps")
      case True
      then show ?thesis using mn[of j] j(2) il by (simp add: nth_append)
    next
      case False
      then have e: "j = length ps" using j(1) by simp
      then have "adm q" using j(2) by simp
      then show ?thesis using assms(2) e il by (simp add: nth_append)
    qed
  next
    fix j assume j: "j < i" "adm ((ps @ [q]) ! j)"
    then have "j < length ps" using il by simp
    then show "c ((ps @ [q]) ! i) < c ((ps @ [q]) ! j)"
      using st[of j] j il by (simp add: nth_append)
  qed
qed

lemma fold_select:
  assumes step: "\<And>p best. step p best =
      (if adm p \<and> lt_inf (c p) (snd best) then (Some (r p), Some (c p)) else best)"
  shows "case fold step ps (None, None) of
           (None, bc) \<Rightarrow> bc = None \<and> (\<forall>p \<in> set ps. \<not> adm p)
         | (Some x, bc) \<Rightarrow> \<exists>i. first_cheapest adm c ps i \<and> x = r (ps ! i) \<and> bc = Some (c (ps ! i))"
proof (induction ps rule: rev_induct)
  case Nil then show ?case by simp
next
  case (snoc q ps)
  obtain bp bc where b: "fold step ps (None, None) = (bp, bc)" by (cases "fold step ps (None, None)")
  have f: "fold step (ps @ [q]) (None, None) =
           (if adm q \<and> lt_inf (c q) bc then (Some (r q), Some (c q)) else (bp, bc))"
    by (simp add: b step)
  show ?case
  proof (cases bp)
    case None
    then have inv: "bc = None" "\<forall>p \<in> set ps. \<not> adm p" using snoc b by simp_all
    show ?thesis
    proof (cases "adm q")
      case True
      have fc: "first_cheapest adm c (ps @ [q]) (length ps)"
        using True inv(2) by (intro first_cheapest_new) auto
      have "fold step (ps @ [q]) (None, None) = (Some (r q), Some (c q))"
        using f True inv(1) by simp
      then show ?thesis using fc by (simp, intro exI[of _ "length ps"]) simp
    next
      case False
      then have "fold step (ps @ [q]) (None, None) = (None, None)"
        using f None inv(1) by simp
      then show ?thesis using inv(2) False by simp
    qed
  next
    case (Some x)
    then obtain i where i: "first_cheapest adm c ps i" "x = r (ps ! i)" "bc = Some (c (ps ! i))"
      using snoc b by auto
    have il: "i < length ps" using i(1) by (simp add: first_cheapest_def)
    have mn: "\<And>j. j < length ps \<Longrightarrow> adm (ps ! j) \<Longrightarrow> c (ps ! i) \<le> c (ps ! j)"
      using i(1) unfolding first_cheapest_def by blast
    show ?thesis
    proof (cases "adm q \<and> c q < c (ps ! i)")
      case True
      have fc: "first_cheapest adm c (ps @ [q]) (length ps)"
      proof (rule first_cheapest_new)
        show "adm q" using True by simp
        fix j assume "j < length ps" "adm (ps ! j)"
        then have "c (ps ! i) \<le> c (ps ! j)" by (rule mn)
        then show "c q < c (ps ! j)" using True by linarith
      qed
      have "fold step (ps @ [q]) (None, None) = (Some (r q), Some (c q))"
        using f True i(3) by simp
      then show ?thesis using fc by (simp, intro exI[of _ "length ps"]) simp
    next
      case False
      have fc: "first_cheapest adm c (ps @ [q]) i"
        using i(1) False by (intro first_cheapest_keep) auto
      have "fold step (ps @ [q]) (None, None) = (Some x, bc)"
        using f False i(3) Some by auto
      then show ?thesis using fc i(2,3) il
        by (simp, intro exI[of _ i]) (simp add: nth_append)
    qed
  qed
qed

lemma route_step_alt:
  "route_step tc itfs ob load p best =
     (if is_admissible (hyp_load load ob p) itfs \<and> lt_inf (tc (hyp_load load ob p) itfs) (snd best)
      then (Some p, Some (tc (hyp_load load ob p) itfs)) else best)"
  by (simp add: route_step_def hyp_load_def Let_def)

lemma route_fold:
  "case fold (route_step tc itfs ob load) ps (None, None) of
     (None, bc) \<Rightarrow> bc = None \<and> (\<forall>p \<in> set ps. \<not> is_admissible (hyp_load load ob p) itfs)
   | (Some x, bc) \<Rightarrow>
       \<exists>i. first_cheapest (\<lambda>p. is_admissible (hyp_load load ob p) itfs)
              (\<lambda>p. tc (hyp_load load ob p) itfs) ps i
            \<and> x = ps ! i \<and> bc = Some (tc (hyp_load load ob (ps ! i)) itfs)"
  by (rule fold_select[where r = "\<lambda>p. p"]) (rule route_step_alt)

lemma route_obligation_admitted:
  "admitted (\<lambda>p. is_admissible (hyp_load load ob p) (interfaces net))
            (\<lambda>p. total_cost (hyp_load load ob p) (interfaces net))
            (find_all_paths net (source ob) (target ob) 6 mp)
            (map_option path (route_obligation net ob load mp))"
proof -
  let ?ps = "find_all_paths net (source ob) (target ob) 6 mp"
  obtain bp bc where b: "fold (route_step total_cost (interfaces net) ob load) ?ps (None, None) = (bp, bc)"
    by (cases "fold (route_step total_cost (interfaces net) ob load) ?ps (None, None)")
  have r: "map_option path (route_obligation net ob load mp) = bp"
    by (cases bp) (simp_all add: route_obligation_def Let_def b)
  show ?thesis
    using route_fold[where tc = total_cost and itfs = "interfaces net" and ob = ob
            and load = load and ps = ?ps] b
    unfolding r admitted_def by (cases bp) auto
qed

lemma route_obligation_V4_admitted:
  "admitted (\<lambda>p. is_admissible (hyp_load load ob p) (interfaces net))
            (\<lambda>p. total_cost_V4 (hyp_load load ob p) (interfaces net))
            (find_all_paths_V4 net (source ob) (target ob) None (Some mp))
            (map_option path (route_obligation_V4 net ob load mp))"
proof -
  let ?ps = "find_all_paths_V4 net (source ob) (target ob) None (Some mp)"
  obtain bp bc where b: "fold (route_step total_cost_V4 (interfaces net) ob load) ?ps (None, None) = (bp, bc)"
    by (cases "fold (route_step total_cost_V4 (interfaces net) ob load) ?ps (None, None)")
  have r: "map_option path (route_obligation_V4 net ob load mp) = bp"
    by (cases bp) (simp_all add: route_obligation_V4_def Let_def b)
  show ?thesis
    using route_fold[where tc = total_cost_V4 and itfs = "interfaces net" and ob = ob
            and load = load and ps = ?ps] b
    unfolding r admitted_def by (cases bp) auto
qed

lemma route_obligation_obligation:
  "route_obligation net ob load mp = Some r \<Longrightarrow> obligation r = ob"
  by (auto simp: route_obligation_def Let_def split: option.splits)

lemma route_obligation_V4_obligation:
  "route_obligation_V4 net ob load mp = Some r \<Longrightarrow> obligation r = ob"
  by (auto simp: route_obligation_V4_def Let_def split: option.splits)

lemma admitted_Some_adm:
  "admitted adm c ps (Some x) \<Longrightarrow> adm x \<and> x \<in> set ps"
  by (auto simp: admitted_def first_cheapest_def)

lemma route_obligation_admissible:
  "route_obligation net ob load mp = Some r \<Longrightarrow>
   is_admissible (hyp_load load ob (path r)) (interfaces net)"
  using route_obligation_admitted[of load ob net mp] admitted_Some_adm by fastforce

lemma route_obligation_V4_admissible:
  "route_obligation_V4 net ob load mp = Some r \<Longrightarrow>
   is_admissible (hyp_load load ob (path r)) (interfaces net)"
  using route_obligation_V4_admitted[of load ob net mp] admitted_Some_adm by fastforce









lemma getitem_compute_load_gen:
  "getitem (fold (\<lambda>r loads. add_contrib loads (load_contribution (path r)) (demand (obligation r)))
              rs acc) nm
   = getitem acc nm + (\<Sum>r \<leftarrow> rs. uses (path r) nm * demand (obligation r))"
  by (induction rs arbitrary: acc) (simp_all add: getitem_add_contrib_path)

lemma getitem_compute_load:
  "getitem (compute_load_from_routed rs) nm
     = (\<Sum>r \<leftarrow> rs. uses (path r) nm * demand (obligation r))"
  by (simp add: compute_load_from_routed_def getitem_compute_load_gen)

lemma sum_list_map_update:
  fixes f :: "'a \<Rightarrow> int"
  shows "i < length xs \<Longrightarrow>
         sum_list (map f (xs[i := y])) = sum_list (map f xs) - f (xs ! i) + f y"
proof (induction xs arbitrary: i)
  case Nil then show ?case by simp
next
  case (Cons x xs)
  then show ?case by (cases i) simp_all
qed

lemma relax_one_cases:
  "relax_one route tc i s = s
   \<or> (\<exists>r. route (obligation (current s ! i))
              (sub_contrib (current_load s) (load_contribution (path (current s ! i)))
                 (demand (obligation (current s ! i)))) = Some r
          \<and> relax_one route tc i s =
              s\<lparr>current := (current s)[i := r],
                current_load := hyp_load (sub_contrib (current_load s)
                                  (load_contribution (path (current s ! i)))
                                  (demand (obligation (current s ! i))))
                                (obligation (current s ! i)) (path r),
                current_cost := tc (hyp_load (sub_contrib (current_load s)
                                  (load_contribution (path (current s ! i)))
                                  (demand (obligation (current s ! i))))
                                (obligation (current s ! i)) (path r)),
                improved := True\<rparr>
          \<and> tc (hyp_load (sub_contrib (current_load s)
                            (load_contribution (path (current s ! i)))
                            (demand (obligation (current s ! i))))
                   (obligation (current s ! i)) (path r)) + EPS_COST < current_cost s)"
  by (auto simp: relax_one_def Let_def hyp_load_def split: option.splits)

lemma relax_one_inv:
  assumes inv: "relax_inv tc c0 obs s" and i: "i < length obs"
    and route: "\<And>ob l r. route ob l = Some r \<Longrightarrow> obligation r = ob"
  shows "relax_inv tc c0 obs (relax_one route tc i s)"
proof -
  let ?ob = "obligation (current s ! i)"
  let ?rem = "sub_contrib (current_load s) (load_contribution (path (current s ! i))) (demand ?ob)"
  have len: "i < length (current s)" using inv i by (auto simp: relax_inv_def dest: map_eq_imp_length_eq)
  from relax_one_cases[of route tc i s] show ?thesis
  proof
    assume "relax_one route tc i s = s"
    then show ?thesis using inv by simp
  next
    assume "\<exists>r. route ?ob ?rem = Some r
          \<and> relax_one route tc i s =
              s\<lparr>current := (current s)[i := r], current_load := hyp_load ?rem ?ob (path r),
                current_cost := tc (hyp_load ?rem ?ob (path r)), improved := True\<rparr>
          \<and> tc (hyp_load ?rem ?ob (path r)) + EPS_COST < current_cost s"
    then obtain r where r: "route ?ob ?rem = Some r"
      and e: "relax_one route tc i s =
              s\<lparr>current := (current s)[i := r], current_load := hyp_load ?rem ?ob (path r),
                current_cost := tc (hyp_load ?rem ?ob (path r)), improved := True\<rparr>"
      and lt: "tc (hyp_load ?rem ?ob (path r)) + EPS_COST < current_cost s"
      by blast
    have ob: "obligation r = ?ob" using route[OF r] .
    have c: "tc (hyp_load ?rem ?ob (path r)) \<le> c0"
      using lt inv by (simp add: relax_inv_def EPS_COST_def)
    have m: "map obligation ((current s)[i := r]) = obs"
    proof -
      have "map obligation ((current s)[i := r]) = (map obligation (current s))[i := obligation r]"
        by (simp add: map_update)
      also have "\<dots> = map obligation (current s)" using ob len by (simp add: list_update_same_conv)
      finally show ?thesis using inv by (simp add: relax_inv_def)
    qed
    have l: "getitem (hyp_load ?rem ?ob (path r)) nm
               = getitem (compute_load_from_routed ((current s)[i := r])) nm" for nm
    proof -
      have "getitem (hyp_load ?rem ?ob (path r)) nm
              = getitem (current_load s) nm - uses (path (current s ! i)) nm * demand ?ob
                + uses (path r) nm * demand ?ob"
        by (simp add: getitem_hyp_load getitem_sub_contrib_path)
      also have "getitem (current_load s) nm
                   = (\<Sum>x \<leftarrow> current s. uses (path x) nm * demand (obligation x))"
        using inv by (simp add: relax_inv_def getitem_compute_load)
      finally show ?thesis
        using sum_list_map_update[OF len, of "\<lambda>x. uses (path x) nm * demand (obligation x)" r] ob
        by (simp add: getitem_compute_load)
    qed
    show ?thesis unfolding e relax_inv_def using c m l by simp
  qed
qed

lemma relax_fold_inv:
  assumes route: "\<And>ob l r. route ob l = Some r \<Longrightarrow> obligation r = ob"
  shows "relax_inv tc c0 obs s \<Longrightarrow> \<forall>i \<in> set idxs. i < length obs \<Longrightarrow>
         relax_inv tc c0 obs (fold (relax_one route tc) idxs s)"
proof (induction idxs arbitrary: s)
  case Nil then show ?case by simp
next
  case (Cons i idxs)
  have "relax_inv tc c0 obs (relax_one route tc i s)"
    using Cons.prems route by (intro relax_one_inv) auto
  then show ?case using Cons by simp
qed

lemma relax_pass_inv:
  assumes route: "\<And>ob l r. route ob l = Some r \<Longrightarrow> obligation r = ob"
    and inv: "relax_inv tc c0 obs s"
  shows "relax_inv tc c0 obs (relax_pass route tc s)"
proof -
  have a: "relax_inv tc c0 obs (s\<lparr>improved := False\<rparr>)" using inv by (simp add: relax_inv_def)
  have "length (current s) = length obs"
    using inv by (auto simp: relax_inv_def dest: map_eq_imp_length_eq)
  then show ?thesis
    unfolding relax_pass_def using a route by (intro relax_fold_inv) auto
qed

lemma relax_iter_inv:
  assumes route: "\<And>ob l r. route ob l = Some r \<Longrightarrow> obligation r = ob"
  shows "relax_inv tc c0 obs s \<Longrightarrow> relax_inv tc c0 obs (relax_iter route tc n s)"
proof (induction n arbitrary: s)
  case 0 then show ?case by simp
next
  case (Suc n)
  have "relax_inv tc c0 obs (relax_pass route tc s)"
    using route Suc.prems by (rule relax_pass_inv)
  then show ?case using Suc.IH by (simp add: Let_def)
qed

lemma relax_init_inv:
  "relax_inv tc (tc (compute_load_from_routed routed)) (map obligation routed)
     \<lparr>current = routed, current_load = compute_load_from_routed routed,
      current_cost = tc (compute_load_from_routed routed), improved = False\<rparr>"
  by (simp add: relax_inv_def)

lemma relax_routing_inv:
  "relax_inv (\<lambda>l. total_cost l (interfaces net))
     (total_cost (compute_load_from_routed routed) (interfaces net)) (map obligation routed)
     (relax_iter (\<lambda>ob l. route_obligation net ob l 10) (\<lambda>l. total_cost l (interfaces net)) n
        \<lparr>current = routed, current_load = compute_load_from_routed routed,
         current_cost = total_cost (compute_load_from_routed routed) (interfaces net),
         improved = False\<rparr>)"
  by (rule relax_iter_inv[OF _ relax_init_inv]) (rule route_obligation_obligation)

lemma relax_routing_V4_inv:
  "relax_inv (\<lambda>l. total_cost_V4 l (interfaces net))
     (total_cost_V4 (compute_load_from_routed routed) (interfaces net)) (map obligation routed)
     (relax_iter (\<lambda>ob l. route_obligation_V4 net ob l 10) (\<lambda>l. total_cost_V4 l (interfaces net)) n
        \<lparr>current = routed, current_load = compute_load_from_routed routed,
         current_cost = total_cost_V4 (compute_load_from_routed routed) (interfaces net),
         improved = False\<rparr>)"
  by (rule relax_iter_inv[OF _ relax_init_inv]) (rule route_obligation_V4_obligation)

lemma relax_routing_props:
  "total_cost (snd (relax_routing net routed its)) (interfaces net)
     \<le> total_cost (compute_load_from_routed routed) (interfaces net)"
  "map obligation (fst (relax_routing net routed its)) = map obligation routed"
  "getitem (snd (relax_routing net routed its)) nm
     = getitem (compute_load_from_routed (fst (relax_routing net routed its))) nm"
  using relax_routing_inv[of net routed "nat its"]
  by (simp_all add: relax_routing_def Let_def relax_inv_def)

lemma relax_routing_V4_props:
  "total_cost_V4 (fst (snd (relax_routing_V4 net routed its))) (interfaces net)
     \<le> total_cost_V4 (compute_load_from_routed routed) (interfaces net)"
  "snd (snd (relax_routing_V4 net routed its))
     = total_cost_V4 (compute_load_from_routed routed) (interfaces net)
       - total_cost_V4 (fst (snd (relax_routing_V4 net routed its))) (interfaces net)"
  "map obligation (fst (relax_routing_V4 net routed its)) = map obligation routed"
  "getitem (fst (snd (relax_routing_V4 net routed its))) nm
     = getitem (compute_load_from_routed (fst (relax_routing_V4 net routed its))) nm"
  using relax_routing_V4_inv[of net routed "nat (or_default its MAX_RELAX_ITERS)"]
  by (simp_all add: relax_routing_V4_def Let_def relax_inv_def)

text \<open>
  Claim C1.  For every call of relax_routing, and for every iteration cap, the total
  cost of the returned load is at most the total cost of the load of the input (so
  at most that cost plus the tolerance), in both variants; the savings the V4 variant
  reports are that difference and are not negative.  One step of the inner loop
  either leaves the state as it is, or replaces route \<open>i\<close> by the route the admission
  controller returns for the remaining load, and then the new total cost plus the
  tolerance is below the current cost and the new load is admissible.
\<close>

theorem relax_routing_cost_nonincreasing:
  "total_cost (snd (relax_routing net routed its)) (interfaces net)
     \<le> total_cost (compute_load_from_routed routed) (interfaces net)
   \<and> total_cost (snd (relax_routing net routed its)) (interfaces net)
     \<le> total_cost (compute_load_from_routed routed) (interfaces net) + EPS_COST
   \<and> total_cost_V4 (fst (snd (relax_routing_V4 net routed its'))) (interfaces net)
     \<le> total_cost_V4 (compute_load_from_routed routed) (interfaces net)
   \<and> snd (snd (relax_routing_V4 net routed its'))
     = total_cost_V4 (compute_load_from_routed routed) (interfaces net)
       - total_cost_V4 (fst (snd (relax_routing_V4 net routed its'))) (interfaces net)
   \<and> 0 \<le> snd (snd (relax_routing_V4 net routed its'))
   \<and> (relax_one (\<lambda>ob l. route_obligation net ob l 10) (\<lambda>l. total_cost l (interfaces net)) i s = s
      \<or> (\<exists>r. route_obligation net (obligation (current s ! i))
                (sub_contrib (current_load s) (load_contribution (path (current s ! i)))
                   (demand (obligation (current s ! i)))) 10 = Some r
            \<and> relax_one (\<lambda>ob l. route_obligation net ob l 10)
                  (\<lambda>l. total_cost l (interfaces net)) i s
                = s\<lparr>current := (current s)[i := r],
                    current_load := hyp_load (sub_contrib (current_load s)
                                      (load_contribution (path (current s ! i)))
                                      (demand (obligation (current s ! i))))
                                    (obligation (current s ! i)) (path r),
                    current_cost := total_cost (hyp_load (sub_contrib (current_load s)
                                      (load_contribution (path (current s ! i)))
                                      (demand (obligation (current s ! i))))
                                    (obligation (current s ! i)) (path r)) (interfaces net),
                    improved := True\<rparr>
            \<and> total_cost (hyp_load (sub_contrib (current_load s)
                              (load_contribution (path (current s ! i)))
                              (demand (obligation (current s ! i))))
                            (obligation (current s ! i)) (path r)) (interfaces net)
                + EPS_COST < current_cost s
            \<and> is_admissible (hyp_load (sub_contrib (current_load s)
                              (load_contribution (path (current s ! i)))
                              (demand (obligation (current s ! i))))
                            (obligation (current s ! i)) (path r)) (interfaces net)))"
proof -
  note a = relax_routing_props(1)[of net routed its]
  note b = relax_routing_V4_props(1,2)[of net routed its']
  have c: "total_cost (snd (relax_routing net routed its)) (interfaces net)
     \<le> total_cost (compute_load_from_routed routed) (interfaces net) + EPS_COST"
    using a by (simp add: EPS_COST_def)
  have d: "0 \<le> snd (snd (relax_routing_V4 net routed its'))" using b by simp
  let ?route = "\<lambda>ob l. route_obligation net ob l 10"
  let ?tc = "\<lambda>l. total_cost l (interfaces net)"
  let ?ob = "obligation (current s ! i)"
  let ?rem = "sub_contrib (current_load s) (load_contribution (path (current s ! i))) (demand ?ob)"
  have e: "relax_one ?route ?tc i s = s
      \<or> (\<exists>r. route_obligation net ?ob ?rem 10 = Some r
            \<and> relax_one ?route ?tc i s
                = s\<lparr>current := (current s)[i := r],
                    current_load := hyp_load ?rem ?ob (path r),
                    current_cost := total_cost (hyp_load ?rem ?ob (path r)) (interfaces net),
                    improved := True\<rparr>
            \<and> total_cost (hyp_load ?rem ?ob (path r)) (interfaces net) + EPS_COST < current_cost s
            \<and> is_admissible (hyp_load ?rem ?ob (path r)) (interfaces net))"
    using relax_one_cases[of ?route ?tc i s] route_obligation_admissible[of net ?ob ?rem 10]
    by blast
  show ?thesis using a b c d e by blast
qed

theorem relax_routing_cost_nonincreasing_witness:
  "total_cost (compute_load_from_routed [via_I3]) (interfaces par) = 5
   \<and> snd (relax_routing par [via_I3] 3) = [(''I3'', 0), (''I1'', 1)]
   \<and> total_cost (snd (relax_routing par [via_I3] 3)) (interfaces par) = 1
   \<and> total_cost (snd (relax_routing par [via_I3] 3)) (interfaces par)
       \<le> total_cost (compute_load_from_routed [via_I3]) (interfaces par) + EPS_COST"
proof -
  have e1: "relax_routing par [via_I3] 3 = ([via_I1], [(''I3'', 0), (''I1'', 1)])"
    by code_simp
  have e2: "total_cost (compute_load_from_routed [via_I3]) (interfaces par) = 5"
    by code_simp
  have e3: "total_cost [(''I3'', 0), (''I1'', 1)] (interfaces par) = 1"
    by code_simp
  show ?thesis
    using relax_routing_cost_nonincreasing[of par "[via_I3]" 3] e1 e2 e3 by simp
qed

text \<open>
  Claim C10, amended.  For every call of relax_routing (both variants) the returned
  list has the length of the input list and carries the same obligation at each
  position, and the returned LoadVector agrees with the load recomputed from the
  returned list by compute_load_from_routed on every interface name, a missing key
  reading as zero.  This is the equality that \<open>LoadVector.__eq__\<close> of
  admissibility_unified_V4.py decides; it is not the equality of the stored dicts, by
  which the plain dataclass of lambda_floor.py compares.
\<close>

theorem relax_routing_load_consistent:
  "length (fst (relax_routing net routed its)) = length routed
   \<and> map obligation (fst (relax_routing net routed its)) = map obligation routed
   \<and> (\<forall>nm. getitem (snd (relax_routing net routed its)) nm
         = getitem (compute_load_from_routed (fst (relax_routing net routed its))) nm)
   \<and> LoadVector_eq (snd (relax_routing net routed its))
        (compute_load_from_routed (fst (relax_routing net routed its)))
   \<and> length (fst (relax_routing_V4 net routed its')) = length routed
   \<and> map obligation (fst (relax_routing_V4 net routed its')) = map obligation routed
   \<and> (\<forall>nm. getitem (fst (snd (relax_routing_V4 net routed its'))) nm
         = getitem (compute_load_from_routed (fst (relax_routing_V4 net routed its'))) nm)
   \<and> LoadVector_eq (fst (snd (relax_routing_V4 net routed its')))
        (compute_load_from_routed (fst (relax_routing_V4 net routed its')))"
proof -
  note a = relax_routing_props(2,3)[of net routed its]
  note b = relax_routing_V4_props(3,4)[of net routed its']
  have la: "length (fst (relax_routing net routed its)) = length routed"
    using a(1) by (rule map_eq_imp_length_eq)
  have lb: "length (fst (relax_routing_V4 net routed its')) = length routed"
    using b(1) by (rule map_eq_imp_length_eq)
  show ?thesis using a b la lb by (simp add: LoadVector_eq_iff)
qed

theorem relax_routing_load_consistent_witness:
  "fst (relax_routing par [via_I3] 3) = [via_I1]
   \<and> snd (relax_routing par [via_I3] 3) = [(''I3'', 0), (''I1'', 1)]
   \<and> compute_load_from_routed [via_I1] = [(''I1'', 1)]
   \<and> map obligation [via_I1] = map obligation [via_I3]
   \<and> LoadVector_eq [(''I3'', 0), (''I1'', 1)] [(''I1'', 1)]"
proof -
  have e1: "relax_routing par [via_I3] 3 = ([via_I1], [(''I3'', 0), (''I1'', 1)])"
    by code_simp
  have e2: "compute_load_from_routed [via_I1] = [(''I1'', 1)]"
    by code_simp
  show ?thesis
    using relax_routing_load_consistent[of par "[via_I3]" 3] e1 e2 by simp
qed

text \<open>
  Claim C10 as stated fails in lambda_floor.py, where two LoadVectors are equal when
  their dicts are: after a reroute the returned load keeps an entry of load zero for
  the interface that was left, a key the recomputed load does not have.
\<close>

theorem relax_routing_load_dict_counterexample:
  "snd (relax_routing par [via_I3] 3) = [(''I3'', 0), (''I1'', 1)]
   \<and> compute_load_from_routed (fst (relax_routing par [via_I3] 3)) = [(''I1'', 1)]
   \<and> \<not> dict_eq (snd (relax_routing par [via_I3] 3))
              (compute_load_from_routed (fst (relax_routing par [via_I3] 3)))"
proof -
  have e1: "relax_routing par [via_I3] 3 = ([via_I1], [(''I3'', 0), (''I1'', 1)])"
    by code_simp
  have e2: "compute_load_from_routed [via_I1] = [(''I1'', 1)]"
    by code_simp
  show ?thesis by (simp add: e1 e2 dict_eq_def)
qed

declare est_loop.simps [simp del]

lemma est_loop_rejected:
  "route_obligation net ob (compute_load_from_routed (active_routed st)) 10 = None \<Longrightarrow>
   est_loop net K n t (ob # rest) st = Inr st"
  by (simp add: est_loop.simps)

lemma est_loop_step:
  assumes K: "K \<noteq> 0"
    and r: "route_obligation net ob (compute_load_from_routed (active_routed st)) 10 = Some routed"
    and ok: "\<forall>x \<in> set (history st). report_ok net x"
  shows "\<exists>st1. est_loop net K n t (ob # rest) st = est_loop net K n (Suc t) rest st1
           \<and> map obligation (active_routed st1) = map obligation (active_routed st) @ [ob]
           \<and> map time_step (history st1)
               = map time_step (history st) @ (if report_due K n t then [t] else [])
           \<and> (\<forall>x \<in> set (history st1). report_ok net x)"
proof (cases "report_due K n t")
  case False
  let ?act = "active_routed st @ [routed]"
  let ?nl = "compute_load_from_routed ?act"
  let ?st1 = "\<lparr>history = history st, active_routed = ?act,
               est_action = est_action st + transition_cost (prev_load st) ?nl (interfaces net),
               prev_load = ?nl\<rparr>"
  have "est_loop net K n t (ob # rest) st = est_loop net K n (Suc t) rest ?st1"
    using K r False by (simp add: est_loop.simps Let_def report_due_def)
  moreover have "map obligation (active_routed ?st1) = map obligation (active_routed st) @ [ob]"
    using route_obligation_obligation[OF r] by simp
  ultimately show ?thesis using False ok by (intro exI[of _ ?st1]) simp
next
  case True
  let ?itfs = "interfaces net"
  let ?act = "active_routed st @ [routed]"
  let ?nl = "compute_load_from_routed ?act"
  let ?rel = "relax_routing net ?act 3"
  let ?rc = "total_cost ?nl ?itfs"
  let ?lam = "total_cost (snd ?rel) ?itfs"
  let ?actn = "est_action st + transition_cost (prev_load st) ?nl ?itfs"
  let ?state = "\<lparr>time_step = t, raw_load = ?nl, raw_cost = ?rc,
                  residual_load = snd ?rel, lambda_E = ?lam,
                  lambda_sigma = fst (residual_fraction (snd ?rel) ?itfs),
                  bottleneck = snd (residual_fraction (snd ?rel) ?itfs),
                  action = ?actn, relaxation_savings = ?rc - ?lam\<rparr>"
  let ?st1 = "\<lparr>history = history st @ [?state], active_routed = fst ?rel,
               est_action = ?actn, prev_load = ?nl\<rparr>"
  have "est_loop net K n t (ob # rest) st = est_loop net K n (Suc t) rest ?st1"
    using K r True by (simp add: est_loop.simps Let_def report_due_def)
  moreover have "map obligation (active_routed ?st1) = map obligation (active_routed st) @ [ob]"
    using route_obligation_obligation[OF r] by (simp add: relax_routing_props(2))
  moreover have "report_ok net ?state"
    unfolding report_ok_def using relax_routing_props(1)[of net ?act 3] by auto
  ultimately show ?thesis using True ok by (intro exI[of _ ?st1]) simp
qed

lemma est_loop_char:
  assumes K: "K \<noteq> 0"
  shows "\<forall>x \<in> set (history st). report_ok net x \<Longrightarrow>
         \<exists>st' m. est_loop net K n t stream st = Inr st'
           \<and> m \<le> length stream
           \<and> map obligation (active_routed st') = map obligation (active_routed st) @ take m stream
           \<and> map time_step (history st')
               = map time_step (history st) @ filter (report_due K n) [t ..< t + m]
           \<and> (\<forall>x \<in> set (history st'). report_ok net x)
           \<and> (m < length stream \<longrightarrow>
                route_obligation net (stream ! m)
                  (compute_load_from_routed (active_routed st')) 10 = None)"
proof (induction stream arbitrary: t st)
  case Nil
  then show ?case by (intro exI[of _ st] exI[of _ 0]) (simp add: est_loop.simps)
next
  case (Cons ob rest)
  show ?case
  proof (cases "route_obligation net ob (compute_load_from_routed (active_routed st)) 10")
    case None
    then show ?thesis using Cons.prems
      by (intro exI[of _ st] exI[of _ 0]) (simp add: est_loop_rejected)
  next
    case (Some routed)
    from est_loop_step[OF K Some Cons.prems, of n t rest]
    obtain st1 where s1: "est_loop net K n t (ob # rest) st = est_loop net K n (Suc t) rest st1"
      and o1: "map obligation (active_routed st1) = map obligation (active_routed st) @ [ob]"
      and h1: "map time_step (history st1)
               = map time_step (history st) @ (if report_due K n t then [t] else [])"
      and k1: "\<forall>x \<in> set (history st1). report_ok net x"
      by blast
    from Cons.IH[OF k1, of "Suc t"]
    obtain st' m where e: "est_loop net K n (Suc t) rest st1 = Inr st'"
      and m: "m \<le> length rest"
      and o: "map obligation (active_routed st') = map obligation (active_routed st1) @ take m rest"
      and h: "map time_step (history st')
               = map time_step (history st1) @ filter (report_due K n) [Suc t ..< Suc t + m]"
      and k: "\<forall>x \<in> set (history st'). report_ok net x"
      and rj: "m < length rest \<longrightarrow>
                route_obligation net (rest ! m)
                  (compute_load_from_routed (active_routed st')) 10 = None"
      by blast
    have up: "[t ..< t + Suc m] = t # [Suc t ..< Suc t + m]"
      by (simp add: upt_conv_Cons)
    have h': "map time_step (history st')
               = map time_step (history st) @ filter (report_due K n) [t ..< t + Suc m]"
      unfolding up using h h1 by simp
    show ?thesis
      using s1 e m o o1 h' k rj
      by (intro exI[of _ st'] exI[of _ "Suc m"]) simp
  qed
qed

text \<open>
  The estimator of lambda_floor.py, for a relax interval that is not zero, returns a
  list of reports and raises nothing.  It admits the commitments of a prefix of the
  stream, in order, and stops at the first one the admission controller rejects
  against the load of the active set; it records a report, after a call of the
  relaxation, exactly at the indices \<open>t\<close> of that prefix with
  \<open>(t + 1) % relax_every == 0\<close> or \<open>t\<close> the last index of the stream.
\<close>

lemma estimate_lambda_floor_stream:
  assumes "relax_every \<noteq> 0"
  shows "\<exists>reports m final.
           estimate_lambda_floor net stream relax_every = Inr reports
           \<and> m \<le> length stream
           \<and> map obligation final = take m stream
           \<and> map time_step reports = filter (report_due relax_every (length stream)) [0 ..< m]
           \<and> (\<forall>x \<in> set reports. report_ok net x)
           \<and> (m < length stream \<longrightarrow>
                route_obligation net (stream ! m) (compute_load_from_routed final) 10 = None)"
proof -
  have "\<forall>x \<in> set (history est_init). report_ok net x" by (simp add: est_init_def)
  from est_loop_char[OF assms this, of "length stream" 0 stream]
  obtain st' m where e: "est_loop net relax_every (length stream) 0 stream est_init = Inr st'"
    and m: "m \<le> length stream"
    and o: "map obligation (active_routed st') = map obligation (active_routed est_init) @ take m stream"
    and h: "map time_step (history st')
               = map time_step (history est_init) @ filter (report_due relax_every (length stream)) [0 ..< 0 + m]"
    and k: "\<forall>x \<in> set (history st'). report_ok net x"
    and rj: "m < length stream \<longrightarrow>
                route_obligation net (stream ! m)
                  (compute_load_from_routed (active_routed st')) 10 = None"
    by blast
  have "estimate_lambda_floor net stream relax_every = Inr (history st')"
    by (simp add: estimate_lambda_floor_def e)
  then show ?thesis using m o h k rj
    by (intro exI[of _ "history st'"] exI[of _ m] exI[of _ "active_routed st'"])
       (simp add: est_init_def)
qed

text \<open>
  Claim C4 fails on the code.  On a network of four interfaces with positive linear
  and non-negative quadratic coefficients and ample capacity, three commitments of
  demand 1, and a report after every admission, the residual costs recorded are 4, 18
  and 16: the third commitment makes the coordinate-descent relaxation leave a local
  minimum the second report was stuck in, and the cost it saves exceeds the cost the
  new commitment adds.  Both variants of the estimator give the same sequence.
\<close>

theorem residual_cost_decreases:
  "map_sum id (map lambda_E) (estimate_lambda_floor net_floor stream_floor 1) = Inr [4, 18, 16]
   \<and> map_sum id (map v4_lambda_E) (estimate_lambda_floor_V4 net_floor stream_floor 1)
       = Inr [4, 18, 16]"
  by code_simp

text \<open>
  Claim C8 fails on the estimator of admissibility_unified_V4.py.  On a stream of one
  commitment with a relax interval of 3 it returns no report: it has no report on the
  final commitment, which the estimator of lambda_floor.py records on the same input.
\<close>

theorem estimate_lambda_floor_V4_no_final_report:
  "estimate_lambda_floor_V4 tri [ob_AC] 3 = Inr []
   \<and> map_sum id (map time_step) (estimate_lambda_floor tri [ob_AC] 3) = Inr [0]"
  by code_simp

end
